(* ===== verification/Go_Prelude.thy ===== *)
theory Go_Prelude
  imports Main "HOL-Library.Multiset" "HOL-Library.Word" "HOL-Library.Char_ord" "HOL-Library.List_Lexorder"
    "HOL-Library.Sublist"
begin

text \<open>
  The part of Go and of its standard library that every component of JANUS uses, and the lemmas
  about it that the component proofs share.

  A Go string or byte slice is a \<^typ>\<open>string\<close>: a HOL \<^typ>\<open>char\<close> is one byte, so \<^const>\<open>length\<close> is
  Go's \<open>len\<close>. A call that returns an error is a value of a sum type, the error on the left; an
  early return of an error from a loop is \<open>rmap\<close> or \<open>rfold\<close>. An \<open>int64\<close> whose sums are checked
  or may wrap is a 64-bit word read by \<^const>\<open>sint\<close>; an \<open>int64\<close> that is only stored and compared
  is an \<^typ>\<open>int\<close>.

  \<open>strings.ToLower\<close> maps the letters of an ASCII string bytewise and consults the Unicode tables
  otherwise. The tables are the argument \<open>ul\<close> of \<open>to_lower\<close> and of everything that calls it, so
  each theorem holds whatever they contain.
\<close>

named_theorems result_simps
named_theorems string_simps

type_synonym ('e, 'a) result = "'e + 'a"

type_synonym i64 = "64 word"

type_synonym unicode_lower = "string \<Rightarrow> string"

section \<open>Results and loops with an early return\<close>

definition rbind :: "('e, 'a) result \<Rightarrow> ('a \<Rightarrow> ('e, 'b) result) \<Rightarrow> ('e, 'b) result" where
  "rbind m f = (case m of Inl e \<Rightarrow> Inl e | Inr x \<Rightarrow> f x)"

fun rmap :: "('a \<Rightarrow> ('e, 'b) result) \<Rightarrow> 'a list \<Rightarrow> ('e, 'b list) result" where
  "rmap f [] = Inr []"
| "rmap f (x # xs) = rbind (f x) (\<lambda>y. rbind (rmap f xs) (\<lambda>ys. Inr (y # ys)))"

fun rfold :: "('s \<Rightarrow> 'a \<Rightarrow> ('e, 's) result) \<Rightarrow> 's \<Rightarrow> 'a list \<Rightarrow> ('e, 's) result" where
  "rfold f s [] = Inr s"
| "rfold f s (x # xs) = rbind (f s x) (\<lambda>s'. rfold f s' xs)"

definition rmap_error :: "('e \<Rightarrow> 'd) \<Rightarrow> ('e, 'a) result \<Rightarrow> ('d, 'a) result" where
  "rmap_error g m = (case m of Inl e \<Rightarrow> Inl (g e) | Inr x \<Rightarrow> Inr x)"

section \<open>Go maps used as seen-sets: first occurrence wins, order kept\<close>

fun uniq_from :: "'a list \<Rightarrow> 'a list \<Rightarrow> 'a list" where
  "uniq_from seen [] = []"
| "uniq_from seen (x # xs) =
     (if x \<in> set seen then uniq_from seen xs else x # uniq_from (x # seen) xs)"

definition uniq :: "'a list \<Rightarrow> 'a list" where
  "uniq xs = uniq_from [] xs"

section \<open>Strings\<close>

definition is_ascii :: "string \<Rightarrow> bool" where
  "is_ascii s = list_all (\<lambda>c. of_char c < (128 :: nat)) s"

definition lower_byte :: "char \<Rightarrow> char" where
  "lower_byte c = (if 65 \<le> (of_char c :: nat) \<and> (of_char c :: nat) \<le> 90
                   then char_of ((of_char c :: nat) + 32) else c)"

definition to_lower :: "unicode_lower \<Rightarrow> string \<Rightarrow> string" where
  "to_lower ul s = (if is_ascii s then map lower_byte s else ul s)"

text \<open>
  \<open>unicode.IsSpace\<close> holds of six ASCII characters and of the code points whose UTF-8 encodings
  follow them in \<open>space_encodings\<close>. The first byte of each encoding starts a rune and the others
  continue it, so that decoding the first or the last rune of a string finds the encoding exactly
  when the string begins or ends with its bytes.
\<close>

definition ascii_spaces :: string where
  "ascii_spaces = [CHR 0x09, CHR 0x0A, CHR 0x0B, CHR 0x0C, CHR 0x0D, CHR 0x20]"

definition space_encodings :: "string list" where
  "space_encodings = map (\<lambda>c. [c]) ascii_spaces @
     [[CHR 0xC2, CHR 0x85], [CHR 0xC2, CHR 0xA0], [CHR 0xE1, CHR 0x9A, CHR 0x80],
      [CHR 0xE2, CHR 0x80, CHR 0x80], [CHR 0xE2, CHR 0x80, CHR 0x81],
      [CHR 0xE2, CHR 0x80, CHR 0x82], [CHR 0xE2, CHR 0x80, CHR 0x83],
      [CHR 0xE2, CHR 0x80, CHR 0x84], [CHR 0xE2, CHR 0x80, CHR 0x85],
      [CHR 0xE2, CHR 0x80, CHR 0x86], [CHR 0xE2, CHR 0x80, CHR 0x87],
      [CHR 0xE2, CHR 0x80, CHR 0x88], [CHR 0xE2, CHR 0x80, CHR 0x89],
      [CHR 0xE2, CHR 0x80, CHR 0x8A], [CHR 0xE2, CHR 0x80, CHR 0xA8],
      [CHR 0xE2, CHR 0x80, CHR 0xA9], [CHR 0xE2, CHR 0x80, CHR 0xAF],
      [CHR 0xE2, CHR 0x81, CHR 0x9F], [CHR 0xE3, CHR 0x80, CHR 0x80]]"

function trim_left :: "string list \<Rightarrow> string \<Rightarrow> string" where
  "trim_left encs s =
     (case find (\<lambda>e. e \<noteq> [] \<and> prefix e s) encs of
        None \<Rightarrow> s
      | Some e \<Rightarrow> trim_left encs (drop (length e) s))"
  by pat_completeness auto
termination
proof (relation "measure (\<lambda>(encs, s). length s)", goal_cases)
  case (2 encs s e)
  then have "e \<noteq> []" and "prefix e s"
    by (auto simp: find_Some_iff)
  then show ?case
    by (cases s) (auto simp: prefix_def)
qed simp

declare trim_left.simps [simp del]

definition trim_right :: "string list \<Rightarrow> string \<Rightarrow> string" where
  "trim_right encs s = rev (trim_left (map rev encs) (rev s))"

definition trim_space :: "string \<Rightarrow> string" where
  "trim_space s = trim_right space_encodings (trim_left space_encodings s)"

definition trim_suffix :: "string \<Rightarrow> string \<Rightarrow> string" where
  "trim_suffix s suf = (if suffix suf s then take (length s - length suf) s else s)"

definition trim_prefix :: "string \<Rightarrow> string \<Rightarrow> string" where
  "trim_prefix s pre = (if prefix pre s then drop (length pre) s else s)"

definition contains_any :: "string \<Rightarrow> string \<Rightarrow> bool" where
  "contains_any s cs = list_ex (\<lambda>c. c \<in> set cs) s"

fun split_on :: "char \<Rightarrow> string \<Rightarrow> string list" where
  "split_on c [] = [[]]"
| "split_on c (x # xs) =
     (if x = c then [] # split_on c xs
      else (case split_on c xs of [] \<Rightarrow> [[x]] | y # ys \<Rightarrow> (x # y) # ys))"

fun join_with :: "string \<Rightarrow> string list \<Rightarrow> string" where
  "join_with sep [] = []"
| "join_with sep [x] = x"
| "join_with sep (x # y # ys) = x @ sep @ join_with sep (y # ys)"

text \<open>\<open>strings.LastIndexByte\<close> with the two slices its callers take, and \<open>strings.Cut\<close>.\<close>

definition split_last :: "char \<Rightarrow> string \<Rightarrow> (string \<times> string) option" where
  "split_last c s =
     (if c \<in> set s
      then Some (rev (tl (dropWhile (\<lambda>x. x \<noteq> c) (rev s))), rev (takeWhile (\<lambda>x. x \<noteq> c) (rev s)))
      else None)"

definition cut_at :: "char \<Rightarrow> string \<Rightarrow> (string \<times> string) option" where
  "cut_at c s =
     (if c \<in> set s then Some (takeWhile (\<lambda>x. x \<noteq> c) s, tl (dropWhile (\<lambda>x. x \<noteq> c) s)) else None)"

section \<open>Slash-separated paths: \<open>path.IsAbs\<close> and \<open>path.Clean\<close>\<close>

definition slash :: char where
  "slash = CHR ''/''"

fun is_abs :: "string \<Rightarrow> bool" where
  "is_abs [] = False"
| "is_abs (c # cs) = (c = slash)"

text \<open>One path element is pushed on, or popped from, the stack of elements kept so far.\<close>

definition clean_step :: "bool \<Rightarrow> string list \<Rightarrow> string \<Rightarrow> string list" where
  "clean_step rooted st e =
     (if e = [] \<or> e = ''.'' then st
      else if e = ''..'' then
        (case st of
           [] \<Rightarrow> (if rooted then [] else [e])
         | t # ts \<Rightarrow> (if t = ''..'' then e # st else ts))
      else e # st)"

definition path_elems :: "string \<Rightarrow> string list" where
  "path_elems p = rev (foldl (clean_step (is_abs p)) [] (split_on slash p))"

definition path_clean :: "string \<Rightarrow> string" where
  "path_clean p =
     (let out = (if is_abs p then [slash] else []) @ join_with [slash] (path_elems p)
      in if out = [] then ''.'' else out)"

section \<open>Lemmas: results\<close>

lemma rbind_simps [simp, result_simps]:
  "rbind (Inl e) f = Inl e"
  "rbind (Inr x) f = f x"
  by (simp_all add: rbind_def)

lemma rbind_Inr_iff [result_simps]:
  "rbind m f = Inr y \<longleftrightarrow> (\<exists>x. m = Inr x \<and> f x = Inr y)"
  by (cases m) auto

lemma rbind_Inl_iff [result_simps]:
  "rbind m f = Inl e \<longleftrightarrow> m = Inl e \<or> (\<exists>x. m = Inr x \<and> f x = Inl e)"
  by (cases m) auto

lemma rmap_error_Inr_iff [simp, result_simps]: "rmap_error g m = Inr y \<longleftrightarrow> m = Inr y"
  by (cases m) (auto simp: rmap_error_def)

lemma rmap_Inr_iff: "rmap f xs = Inr ys \<longleftrightarrow> list_all2 (\<lambda>x y. f x = Inr y) xs ys"
  by (induction xs arbitrary: ys) (auto simp: result_simps list_all2_Cons1)

lemma rmap_Inr_length: "rmap f xs = Inr ys \<Longrightarrow> length ys = length xs"
  by (auto simp: rmap_Inr_iff dest: list_all2_lengthD)

lemma rmap_Inr_set: "rmap f xs = Inr ys \<Longrightarrow> y \<in> set ys \<Longrightarrow> \<exists>x\<in>set xs. f x = Inr y"
  by (auto simp: rmap_Inr_iff list_all2_conv_all_nth set_conv_nth)

lemma rfold_append: "rfold f s (xs @ ys) = rbind (rfold f s xs) (\<lambda>s'. rfold f s' ys)"
  by (induction xs arbitrary: s) (auto simp: rbind_def split: sum.splits)

lemma rfold_invariant:
  assumes "rfold f s xs = Inr s'" and "I s"
    and "\<And>s x s'. x \<in> set xs \<Longrightarrow> I s \<Longrightarrow> f s x = Inr s' \<Longrightarrow> I s'"
  shows "I s'"
  using assms by (induction xs arbitrary: s) (auto simp: result_simps)

section \<open>Lemmas: seen-sets and sorting\<close>

lemma set_uniq_from: "set (uniq_from seen xs) = set xs - set seen"
  by (induction xs arbitrary: seen) auto

lemma set_uniq [simp]: "set (uniq xs) = set xs"
  by (simp add: uniq_def set_uniq_from)

lemma distinct_uniq_from: "distinct (uniq_from seen xs)"
  by (induction xs arbitrary: seen) (auto simp: set_uniq_from)

lemma distinct_uniq [simp]: "distinct (uniq xs)"
  by (simp add: uniq_def distinct_uniq_from)

lemma sorted_distinct_eqI:
  fixes xs ys :: "'a :: linorder list"
  assumes "sorted xs" "distinct xs" "sorted ys" "distinct ys" "set xs = set ys"
  shows "xs = ys"
  using assms by (rule sorted_distinct_set_unique)

section \<open>Lemmas: trimming\<close>

lemma trim_left_suffix: "suffix (trim_left encs s) s"
proof (induction encs s rule: trim_left.induct)
  case (1 encs s)
  show ?case
  proof (cases "find (\<lambda>e. e \<noteq> [] \<and> prefix e s) encs")
    case None
    then show ?thesis by (simp add: trim_left.simps [of encs s])
  next
    case (Some e)
    with "1.IH" have "suffix (trim_left encs (drop (length e) s)) (drop (length e) s)"
      by simp
    also have "suffix (drop (length e) s) s" by (rule suffix_drop)
    finally show ?thesis
      using Some by (simp add: trim_left.simps [of encs s])
  qed
qed

lemma trim_left_no_prefix:
  "e \<in> set encs \<Longrightarrow> e \<noteq> [] \<Longrightarrow> \<not> prefix e (trim_left encs s)"
proof (induction encs s rule: trim_left.induct)
  case (1 encs s)
  show ?case
  proof (cases "find (\<lambda>e. e \<noteq> [] \<and> prefix e s) encs")
    case None
    then have "trim_left encs s = s"
      by (simp add: trim_left.simps [of encs s])
    moreover from None "1.prems"(1) have "\<not> (e \<noteq> [] \<and> prefix e s)"
      by (auto simp: find_None_iff)
    ultimately show ?thesis using "1.prems"(2) by simp
  next
    case (Some d)
    with "1.IH" "1.prems" show ?thesis
      by (simp add: trim_left.simps [of encs s])
  qed
qed

lemma trim_left_id: "(\<And>e. e \<in> set encs \<Longrightarrow> e \<noteq> [] \<Longrightarrow> \<not> prefix e s) \<Longrightarrow> trim_left encs s = s"
proof -
  assume "\<And>e. e \<in> set encs \<Longrightarrow> e \<noteq> [] \<Longrightarrow> \<not> prefix e s"
  then have "find (\<lambda>e. e \<noteq> [] \<and> prefix e s) encs = None"
    by (auto simp: find_None_iff)
  then show ?thesis by (simp add: trim_left.simps)
qed

lemma trim_right_prefix: "prefix (trim_right encs s) s"
  using trim_left_suffix [of "map rev encs" "rev s"]
  by (simp add: trim_right_def suffix_to_prefix)

lemma trim_right_no_suffix:
  "e \<in> set encs \<Longrightarrow> e \<noteq> [] \<Longrightarrow> \<not> suffix e (trim_right encs s)"
  using trim_left_no_prefix [of "rev e" "map rev encs" "rev s"]
  by (simp add: trim_right_def suffix_to_prefix)

lemma trim_right_id: "(\<And>e. e \<in> set encs \<Longrightarrow> e \<noteq> [] \<Longrightarrow> \<not> suffix e s) \<Longrightarrow> trim_right encs s = s"
  unfolding trim_right_def by (subst trim_left_id) (auto simp: suffix_to_prefix)

lemma trim_space_idem [simp]: "trim_space (trim_space s) = trim_space s"
proof -
  let ?l = "trim_left space_encodings s"
  let ?r = "trim_right space_encodings ?l"
  have "\<not> prefix e ?r" if "e \<in> set space_encodings" "e \<noteq> []" for e
    using trim_left_no_prefix [OF that] trim_right_prefix prefix_order.order_trans by blast
  then have "trim_left space_encodings ?r = ?r"
    by (rule trim_left_id)
  moreover have "trim_right space_encodings ?r = ?r"
    by (rule trim_right_id) (rule trim_right_no_suffix)
  ultimately show ?thesis
    by (simp add: trim_space_def)
qed

lemma split_last_eq:
  "split_last c s = Some (a, b) \<Longrightarrow> s = a @ c # b \<and> c \<notin> set b"
proof -
  assume h: "split_last c s = Some (a, b)"
  then have "c \<in> set (rev s)"
    by (auto simp: split_last_def split: if_splits)
  then obtain xs ys where r: "rev s = xs @ c # ys" "c \<notin> set xs"
    by (meson split_list_first)
  from r(2) have "takeWhile (\<lambda>x. x \<noteq> c) (xs @ c # ys) = xs"
    and "dropWhile (\<lambda>x. x \<noteq> c) (xs @ c # ys) = c # ys"
    by (auto simp: takeWhile_append dropWhile_append)
  with h r show ?thesis
    by (auto simp: split_last_def rev_swap split: if_splits)
qed

lemma split_last_append: "c \<notin> set b \<Longrightarrow> split_last c (a @ c # b) = Some (a, b)"
  by (auto simp: split_last_def takeWhile_append dropWhile_append)

lemma split_last_None [simp]: "split_last c s = None \<longleftrightarrow> c \<notin> set s"
  by (simp add: split_last_def)

section \<open>Lemmas: splitting, joining and cleaned paths\<close>

lemma split_on_not_Nil [simp]: "split_on c s \<noteq> []"
  by (induction s) (auto split: list.splits)

lemma split_on_no_sep: "x \<in> set (split_on c s) \<Longrightarrow> c \<notin> set x"
proof (induction s arbitrary: x)
  case (Cons y ys)
  then show ?case by (cases "split_on c ys") (auto split: if_splits)
qed simp

lemma split_on_id: "c \<notin> set s \<Longrightarrow> split_on c s = [s]"
  by (induction s) auto

lemma split_on_append: "split_on c (a @ c # b) = split_on c a @ split_on c b"
proof (induction a)
  case (Cons x xs)
  then show ?case by (cases "split_on c xs") (auto split: list.splits)
qed simp

lemma join_with_append:
  "xs \<noteq> [] \<Longrightarrow> ys \<noteq> [] \<Longrightarrow> join_with sep (xs @ ys) = join_with sep xs @ sep @ join_with sep ys"
proof (induction sep xs rule: join_with.induct)
  case (2 sep x)
  then show ?case by (cases ys) auto
qed auto

lemma split_on_join:
  "xs \<noteq> [] \<Longrightarrow> \<forall>x\<in>set xs. c \<notin> set x \<Longrightarrow> split_on c (join_with [c] xs) = xs"
  by (induction "[c]" xs rule: join_with.induct) (auto simp: split_on_id split_on_append)

text \<open>A proper path element: it names something below the directory it is resolved in.\<close>

definition proper_elem :: "string \<Rightarrow> bool" where
  "proper_elem e \<longleftrightarrow> e \<noteq> [] \<and> e \<noteq> ''.'' \<and> e \<noteq> ''..'' \<and> slash \<notin> set e"

lemma clean_step_proper: "proper_elem e \<Longrightarrow> clean_step r st e = e # st"
  by (simp add: clean_step_def proper_elem_def)

lemma foldl_clean_step_proper:
  "\<forall>e\<in>set es. proper_elem e \<Longrightarrow> foldl (clean_step r) st es = rev es @ st"
  by (induction es arbitrary: st) (simp_all add: clean_step_proper)

lemma foldl_clean_step_rooted:
  "\<forall>e\<in>set st. proper_elem e \<Longrightarrow> \<forall>e\<in>set es. slash \<notin> set e \<Longrightarrow>
     \<forall>e\<in>set (foldl (clean_step True) st es). proper_elem e"
proof (induction es arbitrary: st)
  case (Cons x xs)
  have "\<forall>e\<in>set (clean_step True st x). proper_elem e"
    using Cons.prems by (cases st) (auto simp: clean_step_def proper_elem_def)
  with Cons show ?case by simp
qed simp

lemma path_elems_proper: "is_abs p \<Longrightarrow> e \<in> set (path_elems p) \<Longrightarrow> proper_elem e"
  using foldl_clean_step_rooted [of "[]" "split_on slash p"]
  by (auto simp: path_elems_def split_on_no_sep)

lemma path_clean_abs: "is_abs p \<Longrightarrow> path_clean p = slash # join_with [slash] (path_elems p)"
  by (simp add: path_clean_def)

lemma is_abs_path_clean [simp]: "is_abs p \<Longrightarrow> is_abs (path_clean p)"
  by (simp add: path_clean_abs)

lemma path_elems_join:
  assumes "\<forall>e\<in>set es. proper_elem e"
  shows "path_elems (slash # join_with [slash] es) = es"
proof (cases "es = []")
  case True
  then show ?thesis by (simp add: path_elems_def clean_step_def)
next
  case False
  with assms have "split_on slash (join_with [slash] es) = es"
    by (intro split_on_join) (auto simp: proper_elem_def)
  with assms show ?thesis
    by (simp add: path_elems_def clean_step_def foldl_clean_step_proper)
qed

lemma path_elems_clean [simp]: "is_abs p \<Longrightarrow> path_elems (path_clean p) = path_elems p"
  by (simp add: path_clean_abs path_elems_join path_elems_proper)

lemma path_clean_idem: "is_abs p \<Longrightarrow> path_clean (path_clean p) = path_clean p"
  by (metis is_abs_path_clean path_clean_abs path_elems_clean)

lemma join_eq_Nil_iff: "\<forall>e\<in>set es. e \<noteq> [] \<Longrightarrow> join_with sep es = [] \<longleftrightarrow> es = []"
  by (cases "(sep, es)" rule: join_with.cases) auto

lemma path_clean_root_iff: "is_abs p \<Longrightarrow> path_clean p = [slash] \<longleftrightarrow> path_elems p = []"
  using join_eq_Nil_iff [of "path_elems p" "[slash]"] path_elems_proper [of p]
  by (auto simp: path_clean_abs proper_elem_def)

text \<open>
  The string test the code makes, that one cleaned absolute path equals another or continues it
  after a separator, is the prefix order on their elements.
\<close>

lemma clean_prefix_iff:
  assumes w: "is_abs w" and s: "is_abs s" and ne: "path_elems s \<noteq> []"
  shows "(path_clean w = path_clean s \<or> prefix (path_clean s @ [slash]) (path_clean w))
         \<longleftrightarrow> prefix (path_elems s) (path_elems w)"
proof
  let ?es = "path_elems s" and ?fs = "path_elems w"
  assume "path_clean w = path_clean s \<or> prefix (path_clean s @ [slash]) (path_clean w)"
  then show "prefix ?es ?fs"
  proof
    assume "path_clean w = path_clean s"
    then have "path_elems (path_clean w) = path_elems (path_clean s)" by simp
    with w s show ?thesis by simp
  next
    assume "prefix (path_clean s @ [slash]) (path_clean w)"
    with w s obtain r where eq: "join_with [slash] ?fs = join_with [slash] ?es @ slash # r"
      by (auto simp: path_clean_abs prefix_def)
    then have "?fs \<noteq> []" by (cases ?fs) auto
    with w have "?fs = split_on slash (join_with [slash] ?fs)"
      using split_on_join [of ?fs slash] path_elems_proper [of w] by (auto simp: proper_elem_def)
    also have "\<dots> = split_on slash (join_with [slash] ?es) @ split_on slash r"
      by (simp add: eq split_on_append)
    also have "split_on slash (join_with [slash] ?es) = ?es"
      using s ne split_on_join [of ?es slash] path_elems_proper [of s] by (auto simp: proper_elem_def)
    finally show ?thesis by (metis prefixI)
  qed
next
  let ?es = "path_elems s" and ?fs = "path_elems w"
  assume "prefix ?es ?fs"
  then obtain gs where gs: "?fs = ?es @ gs" by (auto simp: prefix_def)
  show "path_clean w = path_clean s \<or> prefix (path_clean s @ [slash]) (path_clean w)"
  proof (cases "gs = []")
    case True
    with gs w s show ?thesis by (simp add: path_clean_abs)
  next
    case False
    with gs ne w s show ?thesis by (simp add: path_clean_abs join_with_append prefix_def)
  qed
qed

end
