(* ===== verification/Net_Addr.thy ===== *)
theory Net_Addr
  imports Go_Prelude
begin

text \<open>
  IP addresses as Go's \<open>net\<close> and \<open>net/netip\<close> read them: \<open>netip.ParseAddr\<close>, \<open>net.ParseIP\<close>,
  \<open>netip.ParseAddrPort\<close> and the address classes that the policy engine and the egress proxy
  consult. An address is its bytes, four for IPv4 and sixteen for IPv6, and a zone.
\<close>

type_synonym u8 = "8 word"

datatype ip_addr = IPv4 "u8 list" | IPv6 "u8 list" string

definition is_digit :: "char \<Rightarrow> bool" where
  "is_digit c \<longleftrightarrow> 48 \<le> (of_char c :: nat) \<and> (of_char c :: nat) \<le> 57"

definition digit_val :: "char \<Rightarrow> nat" where
  "digit_val c = of_char c - 48"

fun dec_value :: "nat \<Rightarrow> string \<Rightarrow> nat" where
  "dec_value acc [] = acc"
| "dec_value acc (c # cs) = dec_value (10 * acc + digit_val c) cs"

text \<open>One decimal field of a dotted quad: no empty field, no leading zero, at most 255.\<close>

definition quad_field :: "string \<Rightarrow> nat option" where
  "quad_field s =
     (if s = [] \<or> \<not> list_all is_digit s then None
      else if length s > 1 \<and> hd s = CHR ''0'' then None
      else if dec_value 0 s > 255 then None
      else Some (dec_value 0 s))"

definition parse_ipv4_fields :: "string \<Rightarrow> u8 list option" where
  "parse_ipv4_fields s =
     (case map quad_field (split_on (CHR ''.'') s) of
        [Some a, Some b, Some c, Some d] \<Rightarrow>
          Some [word_of_nat a, word_of_nat b, word_of_nat c, word_of_nat d]
      | _ \<Rightarrow> None)"

definition hex_val :: "char \<Rightarrow> nat option" where
  "hex_val c =
     (let n = of_char c in
      if 48 \<le> n \<and> n \<le> 57 then Some (n - 48)
      else if 97 \<le> n \<and> n \<le> 102 then Some (n - 87)
      else if 65 \<le> n \<and> n \<le> 70 then Some (n - 55)
      else None)"

fun hex_value :: "nat \<Rightarrow> string \<Rightarrow> nat" where
  "hex_value acc [] = acc"
| "hex_value acc (c # cs) =
     hex_value (16 * acc + (case hex_val c of None \<Rightarrow> 0 | Some v \<Rightarrow> v)) cs"

text \<open>
  The loop of \<open>parseIPv6\<close> over the groups that remain. \<open>ip\<close> are the bytes read so far and
  \<open>ellipsis\<close> the position of \<open>::\<close> among them. Each turn reads one or more characters, and a
  seventeenth byte is never read: at most eight turns are made, which the first argument counts.
\<close>

fun ipv6_groups ::
    "nat \<Rightarrow> string \<Rightarrow> u8 list \<Rightarrow> nat option \<Rightarrow> (string \<times> u8 list \<times> nat option) option" where
  "ipv6_groups 0 s ip ellipsis = Some (s, ip, ellipsis)"
| "ipv6_groups (Suc n) s ip ellipsis =
     (let digits = takeWhile (\<lambda>c. hex_val c \<noteq> None) s; rest = drop (length digits) s in
      if length digits > 4 \<or> digits = [] then None
      else if rest \<noteq> [] \<and> hd rest = CHR ''.'' then
        (if ellipsis = None \<and> length ip \<noteq> 12 \<or> length ip + 4 > 16 then None
         else (case parse_ipv4_fields s of
                 None \<Rightarrow> None
               | Some q \<Rightarrow> Some ([], ip @ q, ellipsis)))
      else
        (let v = hex_value 0 digits;
             ip' = ip @ [word_of_nat (v div 256), word_of_nat (v mod 256)] in
         (case rest of
            [] \<Rightarrow> Some ([], ip', ellipsis)
          | c # tail \<Rightarrow>
              if c \<noteq> CHR '':'' \<or> tail = [] then None
              else if hd tail = CHR '':'' then
                (if ellipsis \<noteq> None then None
                 else if tl tail = [] then Some ([], ip', Some (length ip'))
                 else ipv6_groups n (tl tail) ip' (Some (length ip')))
              else ipv6_groups n tail ip' ellipsis)))"

definition parse_ipv6 :: "string \<Rightarrow> ip_addr option" where
  "parse_ipv6 input =
     (let (s, zone, zone_ok) =
        (case cut_at (CHR ''%'') input of
           None \<Rightarrow> (input, [], True)
         | Some (a, z) \<Rightarrow> (a, z, z \<noteq> [])) in
      if \<not> zone_ok then None
      else if s = ''::'' then Some (IPv6 (replicate 16 0) zone)
      else
        (let lead = prefix ''::'' s in
         case ipv6_groups 8 (if lead then drop 2 s else s) [] (if lead then Some 0 else None) of
           None \<Rightarrow> None
         | Some (rest, ip, ellipsis) \<Rightarrow>
             if rest \<noteq> [] then None
             else if length ip < 16 then
               (case ellipsis of
                  None \<Rightarrow> None
                | Some e \<Rightarrow>
                    Some (IPv6 (take e ip @ replicate (16 - length ip) 0 @ drop e ip) zone))
             else if ellipsis \<noteq> None then None
             else Some (IPv6 ip zone)))"

text \<open>\<open>netip.ParseAddr\<close>: the first of the three separators decides the family.\<close>

definition parse_addr :: "string \<Rightarrow> ip_addr option" where
  "parse_addr s =
     (case find (\<lambda>c. c \<in> set ''.:%'') s of
        None \<Rightarrow> None
      | Some c \<Rightarrow>
          if c = CHR ''.'' then map_option IPv4 (parse_ipv4_fields s)
          else if c = CHR '':'' then parse_ipv6 s
          else None)"

fun addr_zone :: "ip_addr \<Rightarrow> string" where
  "addr_zone (IPv4 bs) = []"
| "addr_zone (IPv6 bs z) = z"

text \<open>\<open>net.ParseIP\<close> refuses a zone.\<close>

definition parse_ip :: "string \<Rightarrow> ip_addr option" where
  "parse_ip s =
     (case parse_addr s of
        None \<Rightarrow> None
      | Some a \<Rightarrow> if addr_zone a \<noteq> [] then None else Some a)"

end
