(* ===== verification/Policy.thy ===== *)
theory Policy
  imports Go_Prelude Net_Addr
begin

text \<open>
  The policy engine (\<open>core/policy\<close>): profiles, their merge, the evaluation of a spawn request and
  the authorisation of extensions. A profile is merged from a base and overlays, and \<open>evaluate\<close>
  turns a profile and a request into a sandbox configuration or a denial. Go's formatted denial
  reasons are the constructors of \<open>denial\<close> and \<open>ext_error\<close>, with the values they print.
\<close>

section \<open>Data\<close>

definition approval_manual :: string where "approval_manual = ''manual''"

definition approval_auto :: string where "approval_auto = ''auto''"

record budget =
  b_tokens :: int
  b_time_ms :: int
  b_max_depth :: int

record extension =
  ext_name :: string
  ext_version :: string
  ext_integrity :: string
  ext_source :: string
  ext_egress :: "string list"

record profile =
  pf_id :: string
  pf_fs_scope :: "string list"
  pf_egress :: "string list"
  pf_allowed_extensions :: "string list"
  pf_allowed_registries :: "string list"
  pf_budget :: budget
  pf_approval :: string

record spawn_request =
  rq_adapter :: string
  rq_workspace :: string
  rq_egress :: "string list"
  rq_extensions :: "extension list"
  rq_depth :: int

record sandbox_config =
  sc_profile_id :: string
  sc_workspace :: string
  sc_fs_scope :: "string list"
  sc_egress :: "string list"
  sc_denied_egress :: "string list"
  sc_extensions :: "extension list"
  sc_budget :: budget
  sc_approval :: string

datatype ext_error =
    NotExactVersion string
  | NotSha256 string
  | InvalidSource string
  | EmptyName
  | InvalidEgress string
  | DuplicateDeclaration string
  | NameNotAllowed string
  | RegistryNotAllowed string

datatype denial =
    DepthReached int int
  | WorkspaceNotAbsolute string
  | WorkspaceOutOfScope string "string list"
  | ExtensionRefused ext_error

section \<open>Hosts, registries and extension selectors\<close>

definition canonical_host :: "unicode_lower \<Rightarrow> string \<Rightarrow> string" where
  "canonical_host ul raw = trim_suffix (to_lower ul (trim_space raw)) ''.''"

definition bad_host :: "unicode_lower \<Rightarrow> string \<Rightarrow> bool" where
  "bad_host ul raw \<longleftrightarrow>
     canonical_host ul raw = [] \<or> parse_ip (canonical_host ul raw) \<noteq> None
     \<or> contains_any (trim_space raw) ''/?#@ :''"

definition canonical_registry :: "unicode_lower \<Rightarrow> string \<Rightarrow> string option" where
  "canonical_registry ul raw = (if bad_host ul raw then None else Some (canonical_host ul raw))"

definition canonical_egress :: "unicode_lower \<Rightarrow> string list \<Rightarrow> string list option" where
  "canonical_egress ul xs =
     (if list_ex (bad_host ul) xs then None else Some (sort (uniq (map (canonical_host ul) xs))))"

definition canonical_extension_selector :: "unicode_lower \<Rightarrow> string \<Rightarrow> string option" where
  "canonical_extension_selector ul raw =
     (let selector = trim_space raw in
      if selector = [] \<or> trim_space selector \<noteq> selector then None
      else (case split_last (CHR ''@'') selector of
              Some (name, src) \<Rightarrow>
                (case canonical_registry ul src of
                   None \<Rightarrow> None
                 | Some source \<Rightarrow> if name = [] then None else Some (name @ ''@'' @ source))
            | None \<Rightarrow> Some selector))"

text \<open>The local closure \<open>parse\<close> of \<open>intersectExtensionSelectors\<close>: no source is the empty string.\<close>

definition parse_selector :: "unicode_lower \<Rightarrow> string \<Rightarrow> (string \<times> string) option" where
  "parse_selector ul raw =
     (case canonical_extension_selector ul raw of
        None \<Rightarrow> None
      | Some canonical \<Rightarrow>
          (case split_last (CHR ''@'') canonical of
             Some (name, source) \<Rightarrow> Some (name, source)
           | None \<Rightarrow> Some (canonical, [])))"

definition selectors_clash :: "string \<times> string \<Rightarrow> string \<times> string \<Rightarrow> bool" where
  "selectors_clash l r \<longleftrightarrow>
     fst l \<noteq> fst r \<or> (snd l \<noteq> [] \<and> snd r \<noteq> [] \<and> snd l \<noteq> snd r)"

definition joined_selector :: "string \<times> string \<Rightarrow> string \<times> string \<Rightarrow> string" where
  "joined_selector l r =
     (let source = (if snd l = [] then snd r else snd l) in
      if source \<noteq> [] then fst r @ ''@'' @ source else fst r)"

definition intersect_extension_selectors ::
    "unicode_lower \<Rightarrow> string list \<Rightarrow> string list \<Rightarrow> string list" where
  "intersect_extension_selectors ul a b =
     (let left = List.map_filter (parse_selector ul) a;
          right = List.map_filter (parse_selector ul) b in
      sort (uniq (concat (map (\<lambda>r. map (\<lambda>l. joined_selector l r)
                                     (filter (\<lambda>l. \<not> selectors_clash l r) left)) right))))"

section \<open>Merging profiles\<close>

definition merge_id :: "string \<Rightarrow> string \<Rightarrow> string" where
  "merge_id a b = (if a = [] then b else if b = [] then a else a @ ''+'' @ b)"

definition intersect :: "string list \<Rightarrow> string list \<Rightarrow> string list" where
  "intersect a b = sort (uniq (filter (\<lambda>s. s \<in> set a) b))"

definition canonical_hosts :: "unicode_lower \<Rightarrow> string list \<Rightarrow> string list" where
  "canonical_hosts ul xs = filter (\<lambda>c. c \<noteq> []) (map (canonical_host ul) xs)"

definition intersect_canonical_hosts ::
    "unicode_lower \<Rightarrow> string list \<Rightarrow> string list \<Rightarrow> string list" where
  "intersect_canonical_hosts ul a b = intersect (canonical_hosts ul a) (canonical_hosts ul b)"

definition min64 :: "int \<Rightarrow> int \<Rightarrow> int" where
  "min64 a b = (if a < b then a else b)"

definition merge :: "unicode_lower \<Rightarrow> profile \<Rightarrow> profile \<Rightarrow> profile" where
  "merge ul base overlay =
     \<lparr> pf_id = merge_id (pf_id base) (pf_id overlay),
       pf_fs_scope = intersect (pf_fs_scope base) (pf_fs_scope overlay),
       pf_egress = intersect (pf_egress base) (pf_egress overlay),
       pf_allowed_extensions =
         intersect_extension_selectors ul (pf_allowed_extensions base)
           (pf_allowed_extensions overlay),
       pf_allowed_registries =
         intersect_canonical_hosts ul (pf_allowed_registries base) (pf_allowed_registries overlay),
       pf_budget =
         \<lparr> b_tokens = min64 (b_tokens (pf_budget base)) (b_tokens (pf_budget overlay)),
           b_time_ms = min64 (b_time_ms (pf_budget base)) (b_time_ms (pf_budget overlay)),
           b_max_depth = min64 (b_max_depth (pf_budget base)) (b_max_depth (pf_budget overlay)) \<rparr>,
       pf_approval =
         (if pf_approval base = approval_auto \<and> pf_approval overlay = approval_auto
          then approval_auto else approval_manual) \<rparr>"

text \<open>The surfaces (\<open>hx run\<close>, \<open>hx dump-config\<close>) merge the overlays one after another.\<close>

definition effective_profile :: "unicode_lower \<Rightarrow> profile \<Rightarrow> profile list \<Rightarrow> profile" where
  "effective_profile ul base overlays = foldl (merge ul) base overlays"

section \<open>Extension declarations\<close>

definition is_ident_char :: "char \<Rightarrow> bool" where
  "is_ident_char c \<longleftrightarrow>
     is_digit c \<or> (65 \<le> (of_char c :: nat) \<and> (of_char c :: nat) \<le> 90)
     \<or> (97 \<le> (of_char c :: nat) \<and> (of_char c :: nat) \<le> 122) \<or> c = CHR ''.'' \<or> c = CHR ''-''"

text \<open>
  \<open>exactVersionRE\<close> and \<open>sha256RE\<close>. Each part of the version pattern is followed by a character
  outside its own class, so reading as much as possible is the only way to match.
\<close>

fun version_number :: "string \<Rightarrow> string option" where
  "version_number [] = None"
| "version_number (c # cs) =
     (if c = CHR ''0'' then Some cs else if is_digit c then Some (dropWhile is_digit cs) else None)"

fun expect_char :: "char \<Rightarrow> string \<Rightarrow> string option" where
  "expect_char c [] = None"
| "expect_char c (x # xs) = (if x = c then Some xs else None)"

fun optional_label :: "char \<Rightarrow> string \<Rightarrow> string" where
  "optional_label c (x # y # ys) =
     (if x = c \<and> is_ident_char y then dropWhile is_ident_char ys else x # y # ys)"
| "optional_label c s = s"

definition exact_version :: "string \<Rightarrow> bool" where
  "exact_version s =
     (case Option.bind (version_number s) (\<lambda>a.
             Option.bind (expect_char (CHR ''.'') a) (\<lambda>b.
             Option.bind (version_number b) (\<lambda>c.
             Option.bind (expect_char (CHR ''.'') c) version_number))) of
        None \<Rightarrow> False
      | Some rest \<Rightarrow> optional_label (CHR ''+'') (optional_label (CHR ''-'') rest) = [])"

definition is_lower_hex :: "char \<Rightarrow> bool" where
  "is_lower_hex c \<longleftrightarrow> is_digit c \<or> (97 \<le> (of_char c :: nat) \<and> (of_char c :: nat) \<le> 102)"

definition sha256_digest :: "string \<Rightarrow> bool" where
  "sha256_digest s \<longleftrightarrow>
     prefix ''sha256:'' s \<and> length s = 7 + 64 \<and> list_all is_lower_hex (drop 7 s)"

definition normalize_extension ::
    "unicode_lower \<Rightarrow> extension \<Rightarrow> (ext_error, extension) result" where
  "normalize_extension ul ext =
     (if \<not> exact_version (ext_version ext) then Inl (NotExactVersion (ext_name ext))
      else if \<not> sha256_digest (ext_integrity ext) then Inl (NotSha256 (ext_name ext))
      else (case canonical_registry ul (ext_source ext) of
              None \<Rightarrow> Inl (InvalidSource (ext_name ext))
            | Some source \<Rightarrow>
                if ext_name ext = [] \<or> trim_space (ext_name ext) \<noteq> ext_name ext then Inl EmptyName
                else (case canonical_egress ul (ext_egress ext) of
                        None \<Rightarrow> Inl (InvalidEgress (ext_name ext))
                      | Some egress \<Rightarrow> Inr (ext\<lparr>ext_source := source, ext_egress := egress\<rparr>))))"

definition nul :: string where "nul = [CHR 0x00]"

definition extension_identity :: "extension \<Rightarrow> string" where
  "extension_identity ext =
     join_with nul [ext_name ext, ext_version ext, ext_integrity ext, ext_source ext]"

definition extension_order_key :: "extension \<Rightarrow> string" where
  "extension_order_key ext =
     join_with nul [ext_name ext, ext_version ext, ext_source ext, ext_integrity ext]"

definition selector_names :: "unicode_lower \<Rightarrow> string list \<Rightarrow> string list" where
  "selector_names ul selectors = List.map_filter (canonical_extension_selector ul) selectors"

text \<open>The loop of \<open>normalizeAndAuthorizeExtensions\<close>; \<open>seen\<close> are the identities met before.\<close>

fun authorize_extensions ::
    "unicode_lower \<Rightarrow> string list \<Rightarrow> string list \<Rightarrow> string list \<Rightarrow> extension list
       \<Rightarrow> (ext_error, extension list) result" where
  "authorize_extensions ul names registries seen [] = Inr []"
| "authorize_extensions ul names registries seen (raw # exts) =
     rbind (normalize_extension ul raw) (\<lambda>ext.
       if extension_identity ext \<in> set seen then Inl (DuplicateDeclaration (ext_name ext))
       else if \<not> (ext_name ext \<in> set names \<or> ext_name ext @ ''@'' @ ext_source ext \<in> set names)
         then Inl (NameNotAllowed (ext_name ext))
       else if ext_source ext \<notin> set registries then Inl (RegistryNotAllowed (ext_name ext))
       else rbind (authorize_extensions ul names registries (extension_identity ext # seen) exts)
              (\<lambda>out. Inr (ext # out)))"

definition normalize_and_authorize_extensions ::
    "unicode_lower \<Rightarrow> extension list \<Rightarrow> string list \<Rightarrow> string list
       \<Rightarrow> (ext_error, extension list) result" where
  "normalize_and_authorize_extensions ul exts allowed_names allowed_registries =
     (if exts = [] then Inr []
      else rbind (authorize_extensions ul (selector_names ul allowed_names)
                    (canonical_hosts ul allowed_registries) [] exts)
             (\<lambda>out. Inr (sort_key extension_order_key out)))"

section \<open>Evaluating a spawn request\<close>

definition scope_admits :: "string \<Rightarrow> string \<Rightarrow> bool" where
  "scope_admits workspace s =
     (if s = [] \<or> \<not> is_abs s then False
      else if s = ''/'' then True
      else if path_clean s = ''/'' then False
      else workspace = path_clean s \<or> prefix (path_clean s @ ''/'') workspace)"

definition workspace_allowed :: "string list \<Rightarrow> string \<Rightarrow> bool" where
  "workspace_allowed scope workspace = list_ex (scope_admits workspace) scope"

definition allows_workspace :: "string list \<Rightarrow> string \<Rightarrow> bool" where
  "allows_workspace scope workspace =
     (if workspace = [] \<or> \<not> is_abs workspace then False
      else workspace_allowed scope (path_clean workspace))"

definition evaluate ::
    "unicode_lower \<Rightarrow> profile \<Rightarrow> spawn_request \<Rightarrow> (denial, sandbox_config) result" where
  "evaluate ul p req =
     (if b_max_depth (pf_budget p) \<le> rq_depth req
        then Inl (DepthReached (rq_depth req) (b_max_depth (pf_budget p)))
      else if rq_workspace req = [] \<or> \<not> is_abs (rq_workspace req)
        then Inl (WorkspaceNotAbsolute (rq_workspace req))
      else
        (let workspace = path_clean (rq_workspace req) in
         if \<not> workspace_allowed (pf_fs_scope p) workspace
           then Inl (WorkspaceOutOfScope workspace (pf_fs_scope p))
         else rbind (rmap_error ExtensionRefused
                       (normalize_and_authorize_extensions ul (rq_extensions req)
                          (pf_allowed_extensions p) (pf_allowed_registries p)))
           (\<lambda>exts.
              let allowed = canonical_hosts ul (pf_egress p);
                  requested = canonical_hosts ul (rq_egress req @ concat (map ext_egress exts)) in
              Inr \<lparr> sc_profile_id = pf_id p,
                    sc_workspace = workspace,
                    sc_fs_scope = pf_fs_scope p,
                    sc_egress = sort (uniq (filter (\<lambda>d. d \<in> set allowed) requested)),
                    sc_denied_egress = sort (uniq (filter (\<lambda>d. d \<notin> set allowed) requested)),
                    sc_extensions = exts,
                    sc_budget = pf_budget p,
                    sc_approval = pf_approval p \<rparr>)))"

section \<open>Budgets\<close>

record usage =
  us_tokens :: int
  us_elapsed_ms :: int
  us_depth :: int

datatype exceeded = TokensExceeded int int | TimeExceeded int int | DepthLimit int int

definition exceeded_reason :: "budget \<Rightarrow> usage \<Rightarrow> exceeded option" where
  "exceeded_reason b u =
     (if us_tokens u > b_tokens b then Some (TokensExceeded (us_tokens u) (b_tokens b))
      else if us_elapsed_ms u > b_time_ms b then Some (TimeExceeded (us_elapsed_ms u) (b_time_ms b))
      else if us_depth u \<ge> b_max_depth b then Some (DepthLimit (us_depth u) (b_max_depth b))
      else None)"

section \<open>Lemmas: selectors and registries in canonical form\<close>

lemma set_intersect [simp]: "set (intersect a b) = set a \<inter> set b"
  by (auto simp: intersect_def)

lemma set_canonical_hosts: "set (canonical_hosts ul xs) = canonical_host ul ` set xs - {[]}"
  by (auto simp: canonical_hosts_def)

lemma set_map_filter: "set (List.map_filter f xs) = {y. \<exists>x\<in>set xs. f x = Some y}"
  by (induction xs) (auto simp: List.map_filter_simps split: option.splits)

lemma set_selector_names:
  "set (selector_names ul xs) = {c. \<exists>s\<in>set xs. canonical_extension_selector ul s = Some c}"
  by (simp add: selector_names_def set_map_filter)

lemma set_intersect_selectors:
  "set (intersect_extension_selectors ul a b) =
     {joined_selector l r | l r. (\<exists>x\<in>set a. parse_selector ul x = Some l) \<and>
        (\<exists>y\<in>set b. parse_selector ul y = Some r) \<and> \<not> selectors_clash l r}"
  by (auto simp: intersect_extension_selectors_def set_map_filter Let_def) blast

text \<open>
  A profile whose registries and selectors are in canonical form: canonicalising them again
  changes nothing.
\<close>

definition canonical_selector :: "unicode_lower \<Rightarrow> string \<Rightarrow> bool" where
  "canonical_selector ul s \<longleftrightarrow> trim_space s = s \<and> canonical_extension_selector ul s = Some s"

definition canonical_profile :: "unicode_lower \<Rightarrow> profile \<Rightarrow> bool" where
  "canonical_profile ul p \<longleftrightarrow>
     list_all (\<lambda>r. canonical_host ul r = r) (pf_allowed_registries p) \<and>
     list_all (canonical_selector ul) (pf_allowed_extensions p)"

lemma canonical_selector_cases:
  assumes "canonical_selector ul s"
  obtains (name) "parse_selector ul s = Some (s, [])" "CHR ''@'' \<notin> set s"
  | (source) n src where "parse_selector ul s = Some (n, src)" "src \<noteq> []" "s = n @ ''@'' @ src"
      "CHR ''@'' \<notin> set src"
proof (cases "split_last (CHR ''@'') s")
  case None
  then have "CHR ''@'' \<notin> set s" by simp
  moreover from this assms have "parse_selector ul s = Some (s, [])"
    by (simp add: canonical_selector_def parse_selector_def split_last_None [THEN iffD2])
  ultimately show ?thesis by (intro name)
next
  case (Some ab)
  obtain n src where ab: "ab = (n, src)" by (cases ab)
  with Some have s: "s = n @ ''@'' @ src" "CHR ''@'' \<notin> set src"
    using split_last_eq by fastforce+
  from assms Some ab have "canonical_registry ul src = Some src"
    by (auto simp: canonical_selector_def canonical_extension_selector_def s
        split: if_splits option.splits)
  then have "src \<noteq> []"
    by (auto simp: canonical_registry_def bad_host_def split: if_splits)
  moreover from assms Some ab have "parse_selector ul s = Some (n, src)"
    by (simp add: canonical_selector_def parse_selector_def)
  ultimately show ?thesis using s by (intro source)
qed

lemma merged_selector_origin:
  assumes "list_all (canonical_selector ul) a" and "list_all (canonical_selector ul) b"
    and "v \<in> set (intersect_extension_selectors ul a b)"
  shows "v \<in> set a \<union> set b"
proof -
  from assms(3) obtain x y l r where xy: "x \<in> set a" "parse_selector ul x = Some l" "y \<in> set b"
    "parse_selector ul y = Some r" "\<not> selectors_clash l r" and v: "v = joined_selector l r"
    by (auto simp: set_intersect_selectors)
  from assms(1,2) xy have "canonical_selector ul x" "canonical_selector ul y"
    by (auto simp: list_all_iff)
  then show ?thesis
    using xy v
    by (elim canonical_selector_cases)
      (auto simp: joined_selector_def selectors_clash_def split: if_splits)
qed

text \<open>The names that admit an extension, as \<open>normalizeAndAuthorizeExtensions\<close> tests them.\<close>

definition admits_name :: "string set \<Rightarrow> string \<Rightarrow> string \<Rightarrow> bool" where
  "admits_name names name source \<longleftrightarrow> name \<in> names \<or> name @ ''@'' @ source \<in> names"

lemma first_at_unique:
  assumes "a @ CHR ''@'' # b = c @ CHR ''@'' # d" and "CHR ''@'' \<notin> set a" and "CHR ''@'' \<notin> set c"
  shows "a = c \<and> b = d"
  using assms by (induction a arbitrary: c) (auto simp: Cons_eq_append_conv)

lemma merged_admits_left:
  assumes "canonical_selector ul x" "canonical_selector ul y"
    and "parse_selector ul x = Some l" "parse_selector ul y = Some r" "\<not> selectors_clash l r"
    and "CHR ''@'' \<notin> set name" and "admits_name {joined_selector l r} name source"
  shows "admits_name {x} name source"
  using assms(1)
proof (cases rule: canonical_selector_cases)
  case x: name
  show ?thesis
    using assms(2)
  proof (cases rule: canonical_selector_cases)
    case name
    with x assms show ?thesis
      by (auto simp: admits_name_def joined_selector_def selectors_clash_def)
  next
    case (source n src)
    with x assms have "joined_selector l r = x @ ''@'' @ src"
      by (auto simp: joined_selector_def selectors_clash_def)
    with assms(6,7) x show ?thesis
      by (auto simp: admits_name_def dest: first_at_unique)
  qed
next
  case (source n src)
  with assms have "joined_selector l r = x"
    by (auto simp: joined_selector_def selectors_clash_def)
  with assms(7) show ?thesis by simp
qed

lemma selectors_clash_sym: "selectors_clash l r = selectors_clash r l"
  by (auto simp: selectors_clash_def)

lemma joined_selector_sym: "\<not> selectors_clash l r \<Longrightarrow> joined_selector l r = joined_selector r l"
  by (auto simp: selectors_clash_def joined_selector_def Let_def)

lemma intersect_selectors_sym:
  "set (intersect_extension_selectors ul a b) = set (intersect_extension_selectors ul b a)"
  unfolding set_intersect_selectors
  by (auto simp: selectors_clash_sym intro: joined_selector_sym) (metis joined_selector_sym selectors_clash_sym)+

lemma selector_names_canonical:
  "list_all (canonical_selector ul) xs \<Longrightarrow> set (selector_names ul xs) = set xs"
  by (force simp: set_selector_names canonical_selector_def list_all_iff)

lemma merged_names_admit:
  assumes a: "list_all (canonical_selector ul) a" and b: "list_all (canonical_selector ul) b"
    and "CHR ''@'' \<notin> set name"
    and adm: "admits_name (set (selector_names ul (intersect_extension_selectors ul a b))) name source"
  shows "admits_name (set (selector_names ul a)) name source"
proof -
  let ?m = "intersect_extension_selectors ul a b"
  have "list_all (canonical_selector ul) ?m"
    using merged_selector_origin [OF a b] a b by (auto simp: list_all_iff)
  with adm have "admits_name (set ?m) name source"
    by (simp add: selector_names_canonical)
  then obtain v where v: "v \<in> set ?m" "admits_name {v} name source"
    by (auto simp: admits_name_def)
  then obtain x y l r where xy: "x \<in> set a" "parse_selector ul x = Some l" "y \<in> set b"
    "parse_selector ul y = Some r" "\<not> selectors_clash l r" and vl: "v = joined_selector l r"
    by (auto simp: set_intersect_selectors)
  with a b have "canonical_selector ul x" "canonical_selector ul y"
    by (auto simp: list_all_iff)
  with xy vl v(2) assms(3) have "admits_name {x} name source"
    using merged_admits_left by blast
  with xy(1) a show ?thesis
    by (auto simp: selector_names_canonical admits_name_def)
qed

section \<open>Narrowing\<close>

text \<open>The order on profiles: whatever \<open>p\<close> grants, \<open>q\<close> grants too.\<close>

definition profile_narrower :: "unicode_lower \<Rightarrow> profile \<Rightarrow> profile \<Rightarrow> bool" where
  "profile_narrower ul p q \<longleftrightarrow>
     set (pf_fs_scope p) \<subseteq> set (pf_fs_scope q) \<and>
     set (canonical_hosts ul (pf_egress p)) \<subseteq> set (canonical_hosts ul (pf_egress q)) \<and>
     set (canonical_hosts ul (pf_allowed_registries p))
       \<subseteq> set (canonical_hosts ul (pf_allowed_registries q)) \<and>
     (\<forall>name source. CHR ''@'' \<notin> set name \<longrightarrow>
        admits_name (set (selector_names ul (pf_allowed_extensions p))) name source \<longrightarrow>
        admits_name (set (selector_names ul (pf_allowed_extensions q))) name source) \<and>
     b_tokens (pf_budget p) \<le> b_tokens (pf_budget q) \<and>
     b_time_ms (pf_budget p) \<le> b_time_ms (pf_budget q) \<and>
     b_max_depth (pf_budget p) \<le> b_max_depth (pf_budget q) \<and>
     (pf_approval p = approval_auto \<longrightarrow> pf_approval q = approval_auto)"

text \<open>
  What the surfaces rely on when they merge overlays one after another: merging stays within the
  profiles in canonical form and is a lower bound of both arguments. The lemmas lift this to any
  number of overlays.
\<close>

locale narrowing =
  fixes ok :: "'p \<Rightarrow> bool" and le :: "'p \<Rightarrow> 'p \<Rightarrow> bool" and mrg :: "'p \<Rightarrow> 'p \<Rightarrow> 'p"
  assumes le_refl: "le p p"
    and le_trans: "le p q \<Longrightarrow> le q r \<Longrightarrow> le p r"
    and ok_mrg: "ok p \<Longrightarrow> ok q \<Longrightarrow> ok (mrg p q)"
    and mrg_le_left: "ok p \<Longrightarrow> ok q \<Longrightarrow> le (mrg p q) p"
    and mrg_le_right: "ok p \<Longrightarrow> ok q \<Longrightarrow> le (mrg p q) q"
begin

lemma fold_ok: "ok p \<Longrightarrow> list_all ok qs \<Longrightarrow> ok (foldl mrg p qs)"
  by (induction qs arbitrary: p) (auto simp: ok_mrg)

lemma fold_le_base: "ok p \<Longrightarrow> list_all ok qs \<Longrightarrow> le (foldl mrg p qs) p"
proof (induction qs arbitrary: p)
  case (Cons q qs)
  then have "le (foldl mrg (mrg p q) qs) (mrg p q)" by (simp add: ok_mrg)
  moreover from Cons.prems have "le (mrg p q) p" by (simp add: mrg_le_left)
  ultimately show ?case by (simp add: le_trans)
qed (simp add: le_refl)

lemma fold_le_overlay: "ok p \<Longrightarrow> list_all ok qs \<Longrightarrow> q \<in> set qs \<Longrightarrow> le (foldl mrg p qs) q"
proof (induction qs arbitrary: p)
  case (Cons r qs)
  from Cons.prems have ok: "ok (mrg p r)" by (simp add: ok_mrg)
  show ?case
  proof (cases "q = r")
    case True
    with ok Cons.prems have "le (foldl mrg (mrg p r) qs) (mrg p r)" by (simp add: fold_le_base)
    moreover from Cons.prems True have "le (mrg p r) q" by (simp add: mrg_le_right)
    ultimately show ?thesis by (simp add: le_trans)
  next
    case False
    with Cons ok show ?thesis by simp
  qed
qed simp

end

lemma canonical_hosts_fixed:
  "list_all (\<lambda>r. canonical_host ul r = r) xs \<Longrightarrow> set (canonical_hosts ul xs) = set xs - {[]}"
  by (force simp: set_canonical_hosts list_all_iff)

lemma canonical_profile_merge:
  assumes "canonical_profile ul p" "canonical_profile ul q"
  shows "canonical_profile ul (merge ul p q)"
proof -
  have "set (intersect_canonical_hosts ul (pf_allowed_registries p) (pf_allowed_registries q))
          \<subseteq> set (pf_allowed_registries p)"
    using assms by (auto simp: intersect_canonical_hosts_def canonical_profile_def canonical_hosts_fixed)
  with assms show ?thesis
    using merged_selector_origin [of ul "pf_allowed_extensions p" "pf_allowed_extensions q"]
    by (fastforce simp: canonical_profile_def merge_def list_all_iff)
qed

lemma merge_narrower_left:
  assumes "canonical_profile ul p" "canonical_profile ul q"
  shows "profile_narrower ul (merge ul p q) p"
proof -
  have hosts: "list_all (\<lambda>r. canonical_host ul r = r) (pf_allowed_registries p)"
    and sels: "list_all (canonical_selector ul) (pf_allowed_extensions p)"
      "list_all (canonical_selector ul) (pf_allowed_extensions q)"
    using assms by (auto simp: canonical_profile_def)
  have "set (pf_allowed_registries (merge ul p q)) \<subseteq> set (pf_allowed_registries p)"
    using hosts by (auto simp: merge_def intersect_canonical_hosts_def canonical_hosts_fixed)
  then show ?thesis
    using merged_names_admit [OF sels]
    by (auto simp: profile_narrower_def set_canonical_hosts merge_def min64_def
        approval_manual_def approval_auto_def)
qed

lemma merge_sym:
  "pf_fs_scope (merge ul p q) = pf_fs_scope (merge ul q p)"
  "pf_egress (merge ul p q) = pf_egress (merge ul q p)"
  "pf_allowed_extensions (merge ul p q) = pf_allowed_extensions (merge ul q p)"
  "pf_allowed_registries (merge ul p q) = pf_allowed_registries (merge ul q p)"
  "pf_budget (merge ul p q) = pf_budget (merge ul q p)"
  "pf_approval (merge ul p q) = pf_approval (merge ul q p)"
proof -
  have sym: "intersect a b = intersect b a" for a b
    by (rule sorted_distinct_eqI) (auto simp: intersect_def)
  show "pf_fs_scope (merge ul p q) = pf_fs_scope (merge ul q p)"
    "pf_egress (merge ul p q) = pf_egress (merge ul q p)"
    "pf_allowed_registries (merge ul p q) = pf_allowed_registries (merge ul q p)"
    by (simp_all add: merge_def intersect_canonical_hosts_def sym)
  have "set (intersect_extension_selectors ul a b) = set (intersect_extension_selectors ul b a)" for a b
    by (rule intersect_selectors_sym)
  then show "pf_allowed_extensions (merge ul p q) = pf_allowed_extensions (merge ul q p)"
    unfolding merge_def profile.select_convs
    by (intro sorted_distinct_eqI) (auto simp: intersect_extension_selectors_def Let_def)
qed (auto simp: merge_def min64_def)

lemma profile_narrower_cong:
  assumes "profile_narrower ul p r"
    and "pf_fs_scope p = pf_fs_scope q" "pf_egress p = pf_egress q"
    "pf_allowed_extensions p = pf_allowed_extensions q"
    "pf_allowed_registries p = pf_allowed_registries q" "pf_budget p = pf_budget q"
    "pf_approval p = pf_approval q"
  shows "profile_narrower ul q r"
  using assms by (simp add: profile_narrower_def)

interpretation policy: narrowing "canonical_profile ul" "profile_narrower ul" "merge ul" for ul
proof unfold_locales
  fix p q r
  show "profile_narrower ul p p"
    by (simp add: profile_narrower_def)
  show "profile_narrower ul p q \<Longrightarrow> profile_narrower ul q r \<Longrightarrow> profile_narrower ul p r"
    by (auto simp: profile_narrower_def)
  assume ok: "canonical_profile ul p" "canonical_profile ul q"
  show "canonical_profile ul (merge ul p q)"
    using ok by (rule canonical_profile_merge)
  show "profile_narrower ul (merge ul p q) p"
    using ok by (rule merge_narrower_left)
  show "profile_narrower ul (merge ul p q) q"
    using merge_narrower_left [OF ok(2,1)] merge_sym by (rule profile_narrower_cong)
qed

section \<open>Lemmas: evaluation\<close>

lemma authorize_Inr_iff:
  "authorize_extensions ul names registries seen exts = Inr out \<longleftrightarrow>
     rmap (normalize_extension ul) exts = Inr out \<and>
     list_all (\<lambda>e. admits_name (set names) (ext_name e) (ext_source e)
                 \<and> ext_source e \<in> set registries) out \<and>
     distinct (map extension_identity out) \<and>
     extension_identity ` set out \<inter> set seen = {}"
proof (induction exts arbitrary: seen out)
  case (Cons raw exts)
  show ?case
    by (cases "normalize_extension ul raw"; cases out)
      (auto simp: Cons.IH result_simps admits_name_def)
qed auto

lemma normalize_authorize_Inr_iff:
  "normalize_and_authorize_extensions ul exts names registries = Inr out \<longleftrightarrow>
     (\<exists>es. rmap (normalize_extension ul) exts = Inr es \<and> out = sort_key extension_order_key es \<and>
        list_all (\<lambda>e. admits_name (set (selector_names ul names)) (ext_name e) (ext_source e)
                    \<and> ext_source e \<in> set (canonical_hosts ul registries)) es \<and>
        distinct (map extension_identity es))"
  by (auto simp: normalize_and_authorize_extensions_def authorize_Inr_iff result_simps)

lemma normalize_extension_Inr:
  assumes "normalize_extension ul ext = Inr e"
  shows "ext_name e = ext_name ext" and "exact_version (ext_version e)"
    and "sha256_digest (ext_integrity e)" and "ext_source e \<noteq> []"
  using assms
  by (auto simp: normalize_extension_def canonical_registry_def bad_host_def
      split: if_splits option.splits)

lemma evaluate_Inr_iff:
  "evaluate ul p req = Inr c \<longleftrightarrow>
     rq_depth req < b_max_depth (pf_budget p) \<and>
     rq_workspace req \<noteq> [] \<and> is_abs (rq_workspace req) \<and>
     workspace_allowed (pf_fs_scope p) (path_clean (rq_workspace req)) \<and>
     (\<exists>exts. normalize_and_authorize_extensions ul (rq_extensions req)
               (pf_allowed_extensions p) (pf_allowed_registries p) = Inr exts \<and>
        (let allowed = canonical_hosts ul (pf_egress p);
             requested = canonical_hosts ul (rq_egress req @ concat (map ext_egress exts)) in
         c = \<lparr> sc_profile_id = pf_id p, sc_workspace = path_clean (rq_workspace req),
               sc_fs_scope = pf_fs_scope p,
               sc_egress = sort (uniq (filter (\<lambda>d. d \<in> set allowed) requested)),
               sc_denied_egress = sort (uniq (filter (\<lambda>d. d \<notin> set allowed) requested)),
               sc_extensions = exts, sc_budget = pf_budget p, sc_approval = pf_approval p \<rparr>))"
  by (auto simp: evaluate_def Let_def result_simps)

text \<open>The order on sandbox configurations that \<open>profile_narrower\<close> induces.\<close>

definition config_narrower :: "sandbox_config \<Rightarrow> sandbox_config \<Rightarrow> bool" where
  "config_narrower c d \<longleftrightarrow>
     sc_workspace c = sc_workspace d \<and> sc_extensions c = sc_extensions d \<and>
     set (sc_fs_scope c) \<subseteq> set (sc_fs_scope d) \<and>
     set (sc_egress c) \<subseteq> set (sc_egress d) \<and>
     set (sc_denied_egress d) \<subseteq> set (sc_denied_egress c) \<and>
     b_tokens (sc_budget c) \<le> b_tokens (sc_budget d) \<and>
     b_time_ms (sc_budget c) \<le> b_time_ms (sc_budget d) \<and>
     b_max_depth (sc_budget c) \<le> b_max_depth (sc_budget d) \<and>
     (sc_approval c = approval_auto \<longrightarrow> sc_approval d = approval_auto)"

definition plain_names :: "spawn_request \<Rightarrow> bool" where
  "plain_names req \<longleftrightarrow> list_all (\<lambda>e. CHR ''@'' \<notin> set (ext_name e)) (rq_extensions req)"

lemma evaluate_mono:
  assumes pq: "profile_narrower ul p q" and "plain_names req" and c: "evaluate ul p req = Inr c"
  shows "\<exists>d. evaluate ul q req = Inr d \<and> config_narrower c d"
proof -
  from c obtain es where es: "rmap (normalize_extension ul) (rq_extensions req) = Inr es"
    "list_all (\<lambda>e. admits_name (set (selector_names ul (pf_allowed_extensions p)))
         (ext_name e) (ext_source e)
       \<and> ext_source e \<in> set (canonical_hosts ul (pf_allowed_registries p))) es"
    "distinct (map extension_identity es)"
    and exts: "sc_extensions c = sort_key extension_order_key es"
    by (auto simp: evaluate_Inr_iff normalize_authorize_Inr_iff Let_def)
  have "CHR ''@'' \<notin> set (ext_name e)" if "e \<in> set es" for e
    using rmap_Inr_set [OF es(1) that] assms(2) normalize_extension_Inr(1)
    by (fastforce simp: plain_names_def list_all_iff)
  with es(2) pq have "list_all (\<lambda>e. admits_name (set (selector_names ul (pf_allowed_extensions q)))
         (ext_name e) (ext_source e)
       \<and> ext_source e \<in> set (canonical_hosts ul (pf_allowed_registries q))) es"
    by (auto simp: list_all_iff profile_narrower_def)
  with es(1,3) exts have "normalize_and_authorize_extensions ul (rq_extensions req)
      (pf_allowed_extensions q) (pf_allowed_registries q) = Inr (sc_extensions c)"
    by (auto simp: normalize_authorize_Inr_iff)
  with c pq show ?thesis
    by (auto simp: evaluate_Inr_iff Let_def config_narrower_def profile_narrower_def
        workspace_allowed_def list_ex_iff)
qed

lemma effective_profile_narrower:
  assumes "list_all (canonical_profile ul) (base # overlays)" and "p \<in> set (base # overlays)"
  shows "profile_narrower ul (effective_profile ul base overlays) p"
  using assms policy.fold_le_base [of ul base overlays] policy.fold_le_overlay [of ul base overlays p]
  by (auto simp: effective_profile_def)

lemma scope_admits_iff:
  assumes "is_abs w"
  shows "scope_admits (path_clean w) s \<longleftrightarrow>
    is_abs s \<and> (s = [slash] \<or> path_elems s \<noteq> [] \<and> prefix (path_elems s) (path_elems w))"
proof (cases "is_abs s \<and> s \<noteq> [slash] \<and> path_elems s \<noteq> []")
  case True
  with assms show ?thesis
    using clean_prefix_iff [of w s] path_clean_root_iff [of s]
    by (auto simp: scope_admits_def slash_def)
next
  case False
  then show ?thesis
    using path_clean_root_iff [of s] by (auto simp: scope_admits_def slash_def)
qed

lemma workspace_allowed_iff:
  assumes "is_abs w"
  shows "workspace_allowed scope (path_clean w) \<longleftrightarrow> (\<exists>s\<in>set scope.
    is_abs s \<and> (s = [slash] \<or> path_elems s \<noteq> [] \<and> prefix (path_elems s) (path_elems w)))"
  using assms by (auto simp: workspace_allowed_def list_ex_iff scope_admits_iff)

section \<open>Concrete profiles\<close>

definition base_profile :: profile where
  "base_profile =
     \<lparr> pf_id = ''base'', pf_fs_scope = [''/w'', ''/srv''], pf_egress = [''api.example.com'', ''b.io''],
       pf_allowed_extensions = [''fmt'', ''lint@a.io''], pf_allowed_registries = [''a.io''],
       pf_budget = \<lparr> b_tokens = 100, b_time_ms = 1000, b_max_depth = 3 \<rparr>, pf_approval = ''auto'' \<rparr>"

definition team_profile :: profile where
  "team_profile =
     \<lparr> pf_id = ''team'', pf_fs_scope = [''/w''], pf_egress = [''b.io''],
       pf_allowed_extensions = [''fmt@a.io''], pf_allowed_registries = [''a.io''],
       pf_budget = \<lparr> b_tokens = 50, b_time_ms = 2000, b_max_depth = 2 \<rparr>, pf_approval = ''manual'' \<rparr>"

definition at_base :: profile where
  "at_base = base_profile\<lparr>pf_allowed_extensions := [''foo''], pf_allowed_registries := [''b.io'']\<rparr>"

definition at_overlay :: profile where
  "at_overlay =
     base_profile\<lparr>pf_allowed_extensions := [''foo@a.io''], pf_allowed_registries := [''b.io'']\<rparr>"

definition dotted_profile :: profile where
  "dotted_profile = base_profile\<lparr>pf_allowed_registries := [''a..'']\<rparr>"

definition pinned :: "string \<Rightarrow> string \<Rightarrow> extension" where
  "pinned name source =
     \<lparr> ext_name = name, ext_version = ''1.2.3'',
       ext_integrity = ''sha256:'' @ replicate 64 (CHR ''a''), ext_source = source,
       ext_egress = [''B.io''] \<rparr>"

definition child_request :: "extension list \<Rightarrow> spawn_request" where
  "child_request exts =
     \<lparr> rq_adapter = ''claude-code'', rq_workspace = ''/w/x/../y'', rq_egress = [''api.example.com''],
       rq_extensions = exts, rq_depth = 1 \<rparr>"

definition sample_request :: spawn_request where
  "sample_request = child_request [pinned ''fmt'' ''A.io.'']"

lemma sample_profiles_canonical: "list_all (canonical_profile id) [base_profile, team_profile]"
  by code_simp

lemma sample_granted:
  "\<not> isl (evaluate id (effective_profile id base_profile [team_profile]) sample_request)"
  by code_simp

lemma sample_base_granted: "\<not> isl (evaluate id base_profile sample_request)"
  by code_simp

lemma not_isl_Inr: "\<not> isl r \<Longrightarrow> \<exists>c. r = Inr c"
  by (cases r) auto

section \<open>Properties\<close>



text \<open>
  C2. A granted workspace is confined. It is the cleaned absolute path of the request, it has no
  \<open>.\<close>, \<open>..\<close> or empty element, and some absolute scope entry is \<open>/\<close> or has the elements of a
  leading part of it; so no request escapes its scope with \<open>..\<close> or with a sibling that shares a
  textual prefix.
\<close>

theorem evaluate_confines_workspace:
  assumes "evaluate ul p req = Inr c"
  shows "is_abs (sc_workspace c) \<and> sc_workspace c = path_clean (rq_workspace req) \<and>
    path_elems (sc_workspace c) = path_elems (rq_workspace req) \<and>
    list_all proper_elem (path_elems (sc_workspace c)) \<and>
    (\<exists>s\<in>set (pf_fs_scope p). is_abs s \<and>
      (s = [slash] \<or> path_elems s \<noteq> [] \<and> prefix (path_elems s) (path_elems (sc_workspace c))))"
  using assms workspace_allowed_iff [of "rq_workspace req" "pf_fs_scope p"]
    path_elems_proper [of "rq_workspace req"]
  by (auto simp: evaluate_Inr_iff Let_def list_all_iff)

theorem evaluate_confines_workspace_witness:
  "\<exists>c. evaluate id base_profile sample_request = Inr c \<and> is_abs (sc_workspace c)"
  using not_isl_Inr [OF sample_base_granted] evaluate_confines_workspace by blast

text \<open>
  C3. Egress is split exactly. The granted hosts are the requested hosts (those of the request and
  of its extensions, in canonical form) that the profile allows, the denied ones are the requested
  hosts it does not allow; both lists are sorted and free of duplicates.
\<close>

theorem evaluate_egress_partition:
  assumes "evaluate ul p req = Inr c"
  shows "set (sc_egress c) \<union> set (sc_denied_egress c)
      = set (canonical_hosts ul (rq_egress req @ concat (map ext_egress (sc_extensions c)))) \<and>
    set (sc_egress c) \<subseteq> set (canonical_hosts ul (pf_egress p)) \<and>
    set (sc_denied_egress c) \<inter> set (canonical_hosts ul (pf_egress p)) = {} \<and>
    sorted (sc_egress c) \<and> distinct (sc_egress c) \<and>
    sorted (sc_denied_egress c) \<and> distinct (sc_denied_egress c)"
  using assms by (auto simp: evaluate_Inr_iff Let_def)

theorem evaluate_egress_partition_witness:
  "\<exists>c. evaluate id base_profile sample_request = Inr c \<and> distinct (sc_egress c)"
  using not_isl_Inr [OF sample_base_granted] evaluate_egress_partition by blast

text \<open>
  C4. The whole decision. A request is granted exactly when the depth is below the limit, the
  workspace is an absolute path inside the scope, and every extension normalises, is admitted by
  name and registry, and is declared once.
\<close>

theorem evaluate_grants_iff:
  "(\<exists>c. evaluate ul p req = Inr c) \<longleftrightarrow>
     rq_depth req < b_max_depth (pf_budget p) \<and>
     rq_workspace req \<noteq> [] \<and> is_abs (rq_workspace req) \<and>
     (\<exists>s\<in>set (pf_fs_scope p). is_abs s \<and>
       (s = [slash] \<or> path_elems s \<noteq> [] \<and> prefix (path_elems s) (path_elems (rq_workspace req)))) \<and>
     (\<exists>es. rmap (normalize_extension ul) (rq_extensions req) = Inr es \<and>
        distinct (map extension_identity es) \<and>
        list_all (\<lambda>e. admits_name (set (selector_names ul (pf_allowed_extensions p)))
                        (ext_name e) (ext_source e) \<and>
                      ext_source e \<in> set (canonical_hosts ul (pf_allowed_registries p))) es)"
  using workspace_allowed_iff [of "rq_workspace req" "pf_fs_scope p"]
  by (auto simp: evaluate_Inr_iff normalize_authorize_Inr_iff Let_def)

text \<open>
  C5. What a grant says about extensions. The granted extensions are the requested ones, each
  normalised and none lost, in the deterministic order of their key; each is pinned to an exact
  version and a SHA-256 digest, comes from an allowed registry, and no identity occurs twice.
\<close>

theorem granted_extensions_pinned:
  assumes "evaluate ul p req = Inr c"
  shows "\<exists>es. rmap (normalize_extension ul) (rq_extensions req) = Inr es \<and>
    mset (sc_extensions c) = mset es \<and>
    sorted (map extension_order_key (sc_extensions c)) \<and>
    distinct (map extension_identity (sc_extensions c)) \<and>
    list_all (\<lambda>e. exact_version (ext_version e) \<and> sha256_digest (ext_integrity e) \<and>
      ext_source e \<in> set (canonical_hosts ul (pf_allowed_registries p))) (sc_extensions c)"
proof -
  from assms obtain es where es: "rmap (normalize_extension ul) (rq_extensions req) = Inr es"
    and c: "sc_extensions c = sort_key extension_order_key es"
    and dist: "distinct (map extension_identity es)"
    and adm: "list_all (\<lambda>e. ext_source e \<in> set (canonical_hosts ul (pf_allowed_registries p))) es"
    by (auto simp: evaluate_Inr_iff normalize_authorize_Inr_iff Let_def list_all_iff)
  have "exact_version (ext_version e) \<and> sha256_digest (ext_integrity e)" if "e \<in> set es" for e
    using rmap_Inr_set [OF es that] normalize_extension_Inr by blast
  moreover have "distinct (map extension_identity (sort_key extension_order_key es))"
    using dist by (simp add: distinct_map)
  ultimately show ?thesis
    using es c adm by (auto simp: list_all_iff)
qed

theorem granted_extensions_pinned_witness:
  "\<exists>c. evaluate id base_profile sample_request = Inr c \<and>
     distinct (map extension_identity (sc_extensions c))"
  using not_isl_Inr [OF sample_base_granted] granted_extensions_pinned by blast

text \<open>
  C6. Merging does not depend on the order of base and overlay: everything but the identifier is
  the same either way.
\<close>

theorem merge_order_independent:
  "merge ul p q = (merge ul q p)\<lparr>pf_id := merge_id (pf_id p) (pf_id q)\<rparr>"
proof -
  have "pf_id (merge ul p q) = merge_id (pf_id p) (pf_id q)" by (simp add: merge_def)
  moreover note merge_sym [of ul p q]
  ultimately show ?thesis by (intro profile.equality) auto
qed



end
