(* ===== verification/Policy_Parse.thy ===== *)
theory Policy_Parse
  imports Policy
begin

text \<open>
  Reading a policy profile (\<open>core/policy/parse.go\<close>). The YAML decoder is a third-party package: its
  two calls, the first document and whether another document follows, are the arguments \<open>decode\<close>
  and \<open>single\<close>. Everything the code checks after decoding is modelled.
\<close>

record budget_yaml =
  by_tokens :: "int option"
  by_time_ms :: "int option"
  by_max_depth :: "int option"

record profile_yaml =
  py_id :: "string option"
  py_fs_scope :: "string list"
  py_egress :: "string list"
  py_allowed_extensions :: "string list"
  py_allowed_registries :: "string list"
  py_budget :: "budget_yaml option"
  py_approval :: "string option"

datatype parse_error =
    YamlError | SeveralDocuments | NoId | NoApproval | BadApproval string | NoBudget
  | NoAxis string | NegativeAxis string int | BadScope string | ImplicitRoot string | EmptyEgress
  | BadSelector string | BadRegistry string

definition budget_axis :: "string \<Rightarrow> int option \<Rightarrow> (parse_error, int) result" where
  "budget_axis name v =
     (case v of
        None \<Rightarrow> Inl (NoAxis name)
      | Some n \<Rightarrow> if n < 0 then Inl (NegativeAxis name n) else Inr n)"

definition validate_budget :: "budget_yaml \<Rightarrow> (parse_error, budget) result" where
  "validate_budget b =
     rbind (budget_axis ''tokens'' (by_tokens b)) (\<lambda>tokens.
     rbind (budget_axis ''time_ms'' (by_time_ms b)) (\<lambda>time_ms.
     rbind (budget_axis ''max_depth'' (by_max_depth b)) (\<lambda>max_depth.
     Inr \<lparr> b_tokens = tokens, b_time_ms = time_ms, b_max_depth = max_depth \<rparr>)))"

definition parse_scope :: "string \<Rightarrow> (parse_error, string) result" where
  "parse_scope s =
     (if s = [] \<or> \<not> is_abs s then Inl (BadScope s)
      else if path_clean s = [slash] \<and> s \<noteq> [slash] then Inl (ImplicitRoot s)
      else Inr (path_clean s))"

definition canonical_profile_registries ::
    "unicode_lower \<Rightarrow> string list \<Rightarrow> (parse_error, string list) result" where
  "canonical_profile_registries ul xs =
     rbind (rmap (\<lambda>raw. case canonical_registry ul raw of None \<Rightarrow> Inl (BadRegistry raw) | Some h \<Rightarrow> Inr h) xs)
       (\<lambda>hs. Inr (sort (uniq hs)))"

definition check_profile :: "unicode_lower \<Rightarrow> profile_yaml \<Rightarrow> (parse_error, profile) result" where
  "check_profile ul raw =
     (if py_id raw = None \<or> py_id raw = Some [] then Inl NoId
      else (case py_approval raw of
              None \<Rightarrow> Inl NoApproval
            | Some approval \<Rightarrow>
                if approval \<noteq> approval_manual \<and> approval \<noteq> approval_auto then Inl (BadApproval approval)
                else (case py_budget raw of
                        None \<Rightarrow> Inl NoBudget
                      | Some b \<Rightarrow>
                          rbind (validate_budget b) (\<lambda>budget.
                          rbind (rmap parse_scope (py_fs_scope raw)) (\<lambda>scope.
                          if [] \<in> set (py_egress raw) then Inl EmptyEgress
                          else rbind (rmap (\<lambda>name. case canonical_extension_selector ul name of
                                 None \<Rightarrow> Inl (BadSelector name) | Some s \<Rightarrow> Inr s) (py_allowed_extensions raw)) (\<lambda>selectors.
                          rbind (canonical_profile_registries ul (py_allowed_registries raw)) (\<lambda>registries.
                          Inr \<lparr> pf_id = the (py_id raw), pf_fs_scope = scope, pf_egress = py_egress raw,
                                pf_allowed_extensions = selectors, pf_allowed_registries = registries,
                                pf_budget = budget, pf_approval = approval \<rparr>)))))))"

definition parse_profile ::
    "unicode_lower \<Rightarrow> (string \<Rightarrow> profile_yaml option) \<Rightarrow> (string \<Rightarrow> bool) \<Rightarrow> string \<Rightarrow> (parse_error, profile) result" where
  "parse_profile ul decode single data =
     (case decode data of
        None \<Rightarrow> Inl YamlError
      | Some raw \<Rightarrow> if \<not> single data then Inl SeveralDocuments else check_profile ul raw)"

section \<open>Lemmas\<close>

lemma validate_budget_Inr:
  "validate_budget b = Inr g \<Longrightarrow> by_tokens b = Some (b_tokens g) \<and> by_time_ms b = Some (b_time_ms g) \<and>
   by_max_depth b = Some (b_max_depth g) \<and> 0 \<le> b_tokens g \<and> 0 \<le> b_time_ms g \<and> 0 \<le> b_max_depth g"
  by (auto simp: validate_budget_def budget_axis_def result_simps split: option.splits if_splits)

lemma parse_scope_Inr:
  "parse_scope s = Inr c \<Longrightarrow> c = path_clean s \<and> is_abs c \<and> path_clean c = c \<and> (c = [slash] \<longrightarrow> s = [slash])"
  by (auto simp: parse_scope_def path_clean_idem split: if_splits)

lemma check_profile_Inr:
  assumes "check_profile ul raw = Inr p"
  obtains b where "py_id raw = Some (pf_id p)" "pf_id p \<noteq> []" "py_approval raw = Some (pf_approval p)"
    "pf_approval p = approval_manual \<or> pf_approval p = approval_auto" "py_budget raw = Some b"
    "validate_budget b = Inr (pf_budget p)" "rmap parse_scope (py_fs_scope raw) = Inr (pf_fs_scope p)"
    "canonical_profile_registries ul (py_allowed_registries raw) = Inr (pf_allowed_registries p)"
proof -
  obtain i a b where i: "py_id raw = Some i" "i \<noteq> []" and a: "py_approval raw = Some a" and b: "py_budget raw = Some b"
    and ok: "a = approval_manual \<or> a = approval_auto"
    using assms by (auto simp: check_profile_def split: if_split_asm option.split_asm)
  from assms i a b ok obtain g sc se re where
    "validate_budget b = Inr g" "rmap parse_scope (py_fs_scope raw) = Inr sc"
    "canonical_profile_registries ul (py_allowed_registries raw) = Inr re"
    "p = \<lparr> pf_id = i, pf_fs_scope = sc, pf_egress = py_egress raw, pf_allowed_extensions = se,
       pf_allowed_registries = re, pf_budget = g, pf_approval = a \<rparr>"
    by (auto simp: check_profile_def rbind_Inr_iff split: if_split_asm)
  with i a b ok that show thesis by simp
qed

section \<open>Properties\<close>

text \<open>
  C38. A profile that parses is explicit and closed: it names itself, its approval mode is one of the
  two and was written down, every budget axis was written down and is not negative, each
  filesystem scope is a clean absolute path, the root only where the profile says exactly \<open>/\<close>,
  and the registries are sorted without duplicates.
\<close>

theorem parsed_profile_closed:
  assumes "parse_profile ul decode single data = Inr p"
  shows "\<exists>raw b. decode data = Some raw \<and> single data \<and> pf_id p \<noteq> [] \<and>
    py_approval raw = Some (pf_approval p) \<and> pf_approval p \<in> {approval_manual, approval_auto} \<and>
    py_budget raw = Some b \<and> by_tokens b = Some (b_tokens (pf_budget p)) \<and> 0 \<le> b_tokens (pf_budget p) \<and>
    by_time_ms b = Some (b_time_ms (pf_budget p)) \<and> 0 \<le> b_time_ms (pf_budget p) \<and>
    by_max_depth b = Some (b_max_depth (pf_budget p)) \<and> 0 \<le> b_max_depth (pf_budget p) \<and>
    (\<forall>c\<in>set (pf_fs_scope p). is_abs c \<and> path_clean c = c \<and> (c = [slash] \<longrightarrow> [slash] \<in> set (py_fs_scope raw))) \<and>
    sorted (pf_allowed_registries p) \<and> distinct (pf_allowed_registries p)"
proof -
  obtain raw where raw: "decode data = Some raw" "single data" "check_profile ul raw = Inr p"
    using assms by (auto simp: parse_profile_def split: option.split_asm if_split_asm)
  from raw(3) obtain b where p: "pf_id p \<noteq> []" "py_approval raw = Some (pf_approval p)"
    "pf_approval p = approval_manual \<or> pf_approval p = approval_auto" "py_budget raw = Some b"
    "validate_budget b = Inr (pf_budget p)" "rmap parse_scope (py_fs_scope raw) = Inr (pf_fs_scope p)"
    "canonical_profile_registries ul (py_allowed_registries raw) = Inr (pf_allowed_registries p)"
    by (rule check_profile_Inr)
  have scope: "is_abs c \<and> path_clean c = c \<and> (c = [slash] \<longrightarrow> [slash] \<in> set (py_fs_scope raw))"
    if "c \<in> set (pf_fs_scope p)" for c
    using rmap_Inr_set [OF p(6) that] parse_scope_Inr by blast
  obtain hs where "sort (uniq hs) = pf_allowed_registries p"
    using p(7) by (auto simp: canonical_profile_registries_def rbind_Inr_iff)
  then have regs: "sorted (pf_allowed_registries p)" "distinct (pf_allowed_registries p)"
    by (metis sorted_sort, metis distinct_sort distinct_uniq)
  show ?thesis
    using raw(1,2) p(1-4) validate_budget_Inr [OF p(5)] scope regs by blast
qed

definition sample_yaml :: profile_yaml where
  "sample_yaml =
     \<lparr> py_id = Some ''base'', py_fs_scope = [''/w/./a''], py_egress = [''b.io''], py_allowed_extensions = [],
       py_allowed_registries = [],
       py_budget = Some \<lparr> by_tokens = Some 10, by_time_ms = Some 20, by_max_depth = Some 0 \<rparr>,
       py_approval = Some ''manual'' \<rparr>"

lemma sample_parsed: "\<exists>p. parse_profile id (\<lambda>_. Some sample_yaml) (\<lambda>_. True) [] = Inr p \<and> pf_fs_scope p = [''/w/a'']"
  by (simp add: parse_profile_def check_profile_def sample_yaml_def approval_manual_def validate_budget_def
      budget_axis_def parse_scope_def canonical_profile_registries_def uniq_def path_clean_def path_elems_def
      clean_step_def slash_def)

theorem parsed_profile_closed_witness:
  "\<exists>p. parse_profile id (\<lambda>_. Some sample_yaml) (\<lambda>_. True) [] = Inr p \<and>
     (\<forall>c\<in>set (pf_fs_scope p). path_clean c = c) \<and> pf_fs_scope p = [''/w/a'']"
proof -
  obtain p where p: "parse_profile id (\<lambda>_. Some sample_yaml) (\<lambda>_. True) [] = Inr p" "pf_fs_scope p = [''/w/a'']"
    using sample_parsed by blast
  with parsed_profile_closed [OF p(1)] show ?thesis by blast
qed

end
