(* ===== verification/Go_Bytes.thy ===== *)
theory Go_Bytes
  imports Go_Prelude Net_Addr
begin

text \<open>
  Byte encodings of Go's standard library: UTF-8 (\<open>unicode/utf8\<close>), decimal integers
  (\<open>strconv.ParseInt\<close>, \<open>strconv.FormatInt\<close>), lower-case hexadecimal (\<open>encoding/hex\<close>) and standard
  base64 (\<open>encoding/base64.StdEncoding\<close>), with the round trips the components rely on.
\<close>

section \<open>UTF-8\<close>

definition byte :: "char \<Rightarrow> nat" where
  "byte c = of_char c"

definition cont_byte :: "char \<Rightarrow> bool" where
  "cont_byte c \<longleftrightarrow> 128 \<le> byte c \<and> byte c \<le> 191"

text \<open>
  The width of the rune at the front of a string, as \<open>utf8.DecodeRune\<close> accepts it; zero stands for
  an invalid or truncated encoding, which Go reads as U+FFFD of width one.
\<close>

fun rune_width :: "string \<Rightarrow> nat" where
  "rune_width [] = 0"
| "rune_width (a # s) =
     (if byte a < 128 then 1
      else if 194 \<le> byte a \<and> byte a \<le> 223 then
        (case s of b # _ \<Rightarrow> if cont_byte b then 2 else 0 | _ \<Rightarrow> 0)
      else if 224 \<le> byte a \<and> byte a \<le> 239 then
        (case s of b # c # _ \<Rightarrow>
           if cont_byte b \<and> cont_byte c \<and> (byte a = 224 \<longrightarrow> 160 \<le> byte b)
              \<and> (byte a = 237 \<longrightarrow> byte b \<le> 159) then 3 else 0
         | _ \<Rightarrow> 0)
      else if 240 \<le> byte a \<and> byte a \<le> 244 then
        (case s of b # c # d # _ \<Rightarrow>
           if cont_byte b \<and> cont_byte c \<and> cont_byte d \<and> (byte a = 240 \<longrightarrow> 144 \<le> byte b)
              \<and> (byte a = 244 \<longrightarrow> byte b \<le> 143) then 4 else 0
         | _ \<Rightarrow> 0)
      else 0)"

definition replacement :: string where
  "replacement = [CHR 0xEF, CHR 0xBF, CHR 0xBD]"

lemma rune_width_le: "rune_width s \<le> length s"
  by (cases s) (auto split: list.splits)

text \<open>\<open>strings.ToValidUTF8\<close> with U+FFFD for each invalid byte, which JSON encoding applies.\<close>

function utf8_sanitize :: "string \<Rightarrow> string" where
  "utf8_sanitize s =
     (if s = [] then []
      else if rune_width s = 0 then replacement @ utf8_sanitize (tl s)
      else take (rune_width s) s @ utf8_sanitize (drop (rune_width s) s))"
  by pat_completeness auto
termination
proof (relation "measure length", goal_cases)
  case (3 s)
  then show ?case using rune_width_le [of s] by (cases s) auto
qed auto

declare utf8_sanitize.simps [simp del]

function utf8_valid :: "string \<Rightarrow> bool" where
  "utf8_valid s =
     (if s = [] then True
      else if rune_width s = 0 then False
      else utf8_valid (drop (rune_width s) s))"
  by pat_completeness auto
termination
proof (relation "measure length", goal_cases)
  case (2 s)
  then show ?case using rune_width_le [of s] by (cases s) auto
qed auto

declare utf8_valid.simps [simp del]

definition utf8_encode :: "nat \<Rightarrow> string" where
  "utf8_encode r =
     (if r < 128 then [char_of r]
      else if r < 2048 then [char_of (192 + r div 64), char_of (128 + r mod 64)]
      else if 55296 \<le> r \<and> r \<le> 57343 \<or> 1114111 < r then replacement
      else if r < 65536 then
        [char_of (224 + r div 4096), char_of (128 + r div 64 mod 64), char_of (128 + r mod 64)]
      else
        [char_of (240 + r div 262144), char_of (128 + r div 4096 mod 64),
         char_of (128 + r div 64 mod 64), char_of (128 + r mod 64)])"

section \<open>Integers\<close>

definition max_int64 :: int where "max_int64 = 2 ^ 63 - 1"

definition min_int64 :: int where "min_int64 = - (2 ^ 63)"

definition digit_char :: "nat \<Rightarrow> char" where
  "digit_char n = char_of (48 + n)"

fun show_nat :: "nat \<Rightarrow> string" where
  "show_nat n = (if n < 10 then [digit_char n] else show_nat (n div 10) @ [digit_char (n mod 10)])"

declare show_nat.simps [simp del]

definition show_int :: "int \<Rightarrow> string" where
  "show_int i = (if i < 0 then CHR ''-'' # show_nat (nat (- i)) else show_nat (nat i))"

text \<open>\<open>strconv.ParseInt(s, 10, 64)\<close>: an optional sign, digits, and the range check.\<close>

definition parse_int64 :: "string \<Rightarrow> int option" where
  "parse_int64 s =
     (let (neg, ds) = (case s of c # cs \<Rightarrow>
             if c = CHR ''-'' then (True, cs) else if c = CHR ''+'' then (False, cs) else (False, s)
           | [] \<Rightarrow> (False, s)) in
      if ds = [] \<or> \<not> list_all is_digit ds then None
      else (let v = (if neg then - int (dec_value 0 ds) else int (dec_value 0 ds)) in
            if min_int64 \<le> v \<and> v \<le> max_int64 then Some v else None))"

section \<open>Hexadecimal and base64\<close>

definition hex_digit :: "nat \<Rightarrow> char" where
  "hex_digit n = (if n < 10 then char_of (48 + n) else char_of (87 + n))"

definition hex_byte :: "char \<Rightarrow> string" where
  "hex_byte c = [hex_digit (byte c div 16), hex_digit (byte c mod 16)]"

definition hex_encode :: "string \<Rightarrow> string" where
  "hex_encode s = concat (map hex_byte s)"

definition b64_char :: "nat \<Rightarrow> char" where
  "b64_char n =
     (if n < 26 then char_of (65 + n) else if n < 52 then char_of (71 + n)
      else if n < 62 then char_of (n - 4) else if n = 62 then CHR ''+'' else CHR ''/'')"

definition b64_val :: "char \<Rightarrow> nat option" where
  "b64_val c =
     (let n = byte c in
      if 65 \<le> n \<and> n \<le> 90 then Some (n - 65) else if 97 \<le> n \<and> n \<le> 122 then Some (n - 71)
      else if 48 \<le> n \<and> n \<le> 57 then Some (n + 4) else if c = CHR ''+'' then Some 62
      else if c = CHR ''/'' then Some 63 else None)"

definition b64_quad :: "nat \<Rightarrow> nat \<Rightarrow> nat \<Rightarrow> string" where
  "b64_quad a b c =
     map b64_char [a div 4, a mod 4 * 16 + b div 16, b mod 16 * 4 + c div 64, c mod 64]"

fun b64_encode :: "string \<Rightarrow> string" where
  "b64_encode [] = []"
| "b64_encode [a] = take 2 (b64_quad (byte a) 0 0) @ ''==''"
| "b64_encode [a, b] = take 3 (b64_quad (byte a) (byte b) 0) @ ''=''"
| "b64_encode (a # b # c # s) = b64_quad (byte a) (byte b) (byte c) @ b64_encode s"

definition b64_bytes :: "nat \<Rightarrow> nat \<Rightarrow> nat \<Rightarrow> nat \<Rightarrow> string" where
  "b64_bytes w x y z =
     map char_of [w * 4 + x div 16, x mod 16 * 16 + y div 4, y mod 4 * 64 + z]"

fun b64_quanta :: "string \<Rightarrow> string option" where
  "b64_quanta [] = Some []"
| "b64_quanta (p # q # r # t # s) =
     (case (b64_val p, b64_val q) of
        (Some w, Some x) \<Rightarrow>
          if r = CHR ''='' then
            (if t = CHR ''='' \<and> s = [] then Some (take 1 (b64_bytes w x 0 0)) else None)
          else (case b64_val r of
             None \<Rightarrow> None
           | Some y \<Rightarrow>
               if t = CHR ''='' then (if s = [] then Some (take 2 (b64_bytes w x y 0)) else None)
               else (case b64_val t of
                  None \<Rightarrow> None
                | Some z \<Rightarrow> map_option (\<lambda>out. b64_bytes w x y z @ out) (b64_quanta s)))
      | _ \<Rightarrow> None)"
| "b64_quanta _ = None"

text \<open>\<open>StdEncoding.DecodeString\<close> skips line breaks wherever they stand.\<close>

definition b64_decode :: "string \<Rightarrow> string option" where
  "b64_decode s = b64_quanta (filter (\<lambda>c. c \<noteq> CHR 0x0A \<and> c \<noteq> CHR 0x0D) s)"

section \<open>Lemmas\<close>

lemma byte_less [simp]: "byte c < 256"
  by (simp add: byte_def)

lemma char_of_byte [simp]: "char_of (byte c) = c"
  by (simp add: byte_def)

lemma byte_char_of: "n < 256 \<Longrightarrow> byte (char_of n) = n"
  by (simp add: byte_def)

lemma dec_value_snoc: "dec_value acc (s @ [c]) = 10 * dec_value acc s + digit_val c"
  by (induction s arbitrary: acc) auto

lemma digit_char_props:
  assumes "n < 10"
  shows "is_digit (digit_char n)" and "digit_val (digit_char n) = n"
  using assms by (auto simp: is_digit_def digit_val_def digit_char_def)

lemma show_nat_digits: "list_all is_digit (show_nat n)"
proof (induction n rule: show_nat.induct)
  case (1 n)
  then show ?case by (subst show_nat.simps) (auto simp: digit_char_props)
qed

lemma show_nat_not_Nil [simp]: "show_nat n \<noteq> []"
  by (subst show_nat.simps) simp

lemma dec_value_show_nat [simp]: "dec_value 0 (show_nat n) = n"
proof (induction n rule: show_nat.induct)
  case (1 n)
  then show ?case
    by (subst show_nat.simps) (auto simp: digit_char_props dec_value_snoc)
qed

lemma show_nat_head: "\<exists>c cs. show_nat n = c # cs \<and> is_digit c \<and> c \<noteq> CHR ''-'' \<and> c \<noteq> CHR ''+''"
proof -
  obtain c cs where "show_nat n = c # cs" and "is_digit c"
    using show_nat_digits [of n] by (cases "show_nat n") auto
  moreover have "\<not> is_digit (CHR ''-'')" "\<not> is_digit (CHR ''+'')"
    by (simp_all add: is_digit_def)
  ultimately show ?thesis by metis
qed

lemma parse_show_int:
  assumes "min_int64 \<le> i" "i \<le> max_int64"
  shows "parse_int64 (show_int i) = Some i"
proof (cases "i < 0")
  case True
  with assms show ?thesis
    using show_nat_digits [of "nat (- i)"] by (simp add: parse_int64_def show_int_def)
next
  case False
  obtain c cs where c: "show_nat (nat i) = c # cs" "c \<noteq> CHR ''-''" "c \<noteq> CHR ''+''"
    using show_nat_head by blast
  have "dec_value 0 (c # cs) = nat i" "list_all is_digit (c # cs)"
    using show_nat_digits [of "nat i"] dec_value_show_nat [of "nat i"] by (simp_all only: c)
  with False assms c show ?thesis
    by (simp add: parse_int64_def show_int_def del: dec_value.simps)
qed

lemma b64_val_char: "n < 64 \<Longrightarrow> b64_val (b64_char n) = Some n"
  by (auto simp: b64_val_def b64_char_def byte_def Let_def)

lemma b64_char_plain:
  assumes "n < 64"
  shows "b64_char n \<notin> {CHR ''='', CHR 0x0A, CHR 0x0D}"
proof -
  have "byte (b64_char n) \<notin> byte ` {CHR ''='', CHR 0x0A, CHR 0x0D}"
    using assms by (auto simp: b64_char_def byte_def)
  then show ?thesis by blast
qed

lemma b64_quadE:
  assumes "a < 256" "b < 256" "c < 256"
  obtains w x y z where "b64_quad a b c = map b64_char [w, x, y, z]"
    "b64_bytes w x y z = map char_of [a, b, c]" "w < 64" "x < 64" "y < 64" "z < 64"
    "c = 0 \<Longrightarrow> z = 0" "b = 0 \<Longrightarrow> c = 0 \<Longrightarrow> y = 0"
proof
  let ?w = "a div 4" and ?x = "a mod 4 * 16 + b div 16" and ?y = "b mod 16 * 4 + c div 64"
    and ?z = "c mod 64"
  show "b64_quad a b c = map b64_char [?w, ?x, ?y, ?z]" by (simp add: b64_quad_def)
  have b: "b div 16 < 16" and c: "c div 64 < 4" using assms by simp_all
  show "?w < 64" "?z < 64" "c = 0 \<Longrightarrow> ?z = 0" "b = 0 \<Longrightarrow> c = 0 \<Longrightarrow> ?y = 0"
    using assms by simp_all
  have "a mod 4 < 4" "b mod 16 < 16" by simp_all
  with b c show "?x < 64" "?y < 64" by linarith+
  have "?x div 16 = a mod 4" "?x mod 16 = b div 16" "?y div 4 = b mod 16" "?y mod 4 = c div 64"
    using b c by simp_all
  then have "?w * 4 + ?x div 16 = a" "?x mod 16 * 16 + ?y div 4 = b" "?y mod 4 * 64 + ?z = c"
    by simp_all
  then show "b64_bytes ?w ?x ?y ?z = map char_of [a, b, c]"
    unfolding b64_bytes_def by (simp only:)
qed

lemma b64_quanta_encode: "b64_quanta (b64_encode s) = Some s"
proof (induction s rule: b64_encode.induct)
  case (2 a)
  obtain w x y z where "b64_quad (byte a) 0 0 = map b64_char [w, x, y, z]"
    "b64_bytes w x y z = map char_of [byte a, 0, 0]" "w < 64" "x < 64" "y = 0" "z = 0"
    by (rule b64_quadE [of "byte a" 0 0]) simp_all
  then show ?case by (simp add: b64_val_char)
next
  case (3 a b)
  obtain w x y z where "b64_quad (byte a) (byte b) 0 = map b64_char [w, x, y, z]"
    "b64_bytes w x y z = map char_of [byte a, byte b, 0]" "w < 64" "x < 64" "y < 64" "z = 0"
    by (rule b64_quadE [of "byte a" "byte b" 0]) simp_all
  with b64_char_plain [of y] show ?case by (simp add: b64_val_char)
next
  case (4 a b c s)
  obtain w x y z where "b64_quad (byte a) (byte b) (byte c) = map b64_char [w, x, y, z]"
    "b64_bytes w x y z = map char_of [byte a, byte b, byte c]" "w < 64" "x < 64" "y < 64" "z < 64"
    by (rule b64_quadE [of "byte a" "byte b" "byte c"]) simp_all
  with b64_char_plain [of y] b64_char_plain [of z] 4 show ?case by (simp add: b64_val_char)
qed simp

lemma b64_quad_no_breaks:
  assumes "a < 256" "b < 256" "c < 256"
  shows "set (b64_quad a b c) \<inter> {CHR 0x0A, CHR 0x0D} = {}"
  by (rule b64_quadE [OF assms]) (use b64_char_plain in auto)

lemma b64_encode_no_breaks: "set (b64_encode s) \<inter> {CHR 0x0A, CHR 0x0D} = {}"
proof (induction s rule: b64_encode.induct)
  case (2 a)
  show ?case
    using b64_quad_no_breaks [of "byte a" 0 0] set_take_subset [of 2 "b64_quad (byte a) 0 0"] by auto
next
  case (3 a b)
  show ?case
    using b64_quad_no_breaks [of "byte a" "byte b" 0]
      set_take_subset [of 3 "b64_quad (byte a) (byte b) 0"] by auto
next
  case (4 a b c s)
  then show ?case
    using b64_quad_no_breaks [of "byte a" "byte b" "byte c"] by auto
qed simp

lemma b64_decode_encode [simp]: "b64_decode (b64_encode s) = Some s"
proof -
  have "filter (\<lambda>c. c \<noteq> CHR 0x0A \<and> c \<noteq> CHR 0x0D) (b64_encode s) = b64_encode s"
    using b64_encode_no_breaks [of s] by (auto simp: filter_id_conv)
  then show ?thesis by (simp add: b64_decode_def b64_quanta_encode)
qed

lemma utf8_sanitize_valid: "utf8_valid s \<Longrightarrow> utf8_sanitize s = s"
proof (induction s rule: utf8_valid.induct)
  case (1 s)
  then show ?case
    using utf8_valid.simps [of s] utf8_sanitize.simps [of s] by (auto split: if_splits)
qed

lemma is_ascii_utf8_valid: "is_ascii s \<Longrightarrow> utf8_valid s"
proof (induction s)
  case Nil
  show ?case by (subst utf8_valid.simps) simp
next
  case (Cons c s)
  then show ?case by (subst utf8_valid.simps) (simp add: is_ascii_def byte_def)
qed

end
