(* ===== verification/Json.thy ===== *)
theory Json
  imports Go_Bytes
begin

text \<open>
  JSON as Go's \<open>encoding/json\<close> reads and writes it, over bytes: the grammar with its nesting limit,
  string literals with their escapes and UTF-8 repair, compaction, the printing of strings, numbers
  and objects, and the decoding of an object into the fields of a struct (exact or case-folded
  names, the last occurrence wins, \<open>null\<close> leaves a field as it is).
\<close>

datatype json =
    JNull
  | JBool bool
  | JNum string
  | JStr string
  | JArr "json list"
  | JObj "(string \<times> json) list"

definition dquote :: char where "dquote = CHR 0x22"

definition backslash :: char where "backslash = CHR 0x5C"

definition json_space :: "char \<Rightarrow> bool" where
  "json_space c \<longleftrightarrow> c = CHR '' '' \<or> c = CHR 0x09 \<or> c = CHR 0x0A \<or> c = CHR 0x0D"

definition skip_ws :: "string \<Rightarrow> string" where
  "skip_ws s = dropWhile json_space s"

section \<open>String literals\<close>

definition simple_escapes :: string where
  "simple_escapes = [CHR 0x22, CHR 0x5C, CHR ''/'', CHR ''b'', CHR ''f'', CHR ''n'', CHR ''r'', CHR ''t'']"

definition is_hex :: "char \<Rightarrow> bool" where
  "is_hex c \<longleftrightarrow> hex_val c \<noteq> None"

text \<open>The rest of a string literal after its opening quote: the raw body, and what follows it.\<close>

fun scan_body :: "string \<Rightarrow> (string \<times> string) option" where
  "scan_body [] = None"
| "scan_body (c # cs) =
     (if c = dquote then Some ([], cs)
      else if c = backslash then
        (case cs of
           [] \<Rightarrow> None
         | e # ds \<Rightarrow>
             if e \<in> set simple_escapes
               then map_option (\<lambda>(b, r). (c # e # b, r)) (scan_body ds)
             else if e = CHR ''u'' \<and> 4 \<le> length ds \<and> list_all is_hex (take 4 ds)
               then map_option (\<lambda>(b, r). (c # e # take 4 ds @ b, r)) (scan_body (drop 4 ds))
             else None)
      else if byte c < 32 then None
      else map_option (\<lambda>(b, r). (c # b, r)) (scan_body cs))"

definition unescape_char :: "char \<Rightarrow> char" where
  "unescape_char e =
     (if e = CHR ''b'' then CHR 0x08 else if e = CHR ''f'' then CHR 0x0C
      else if e = CHR ''n'' then CHR 0x0A else if e = CHR ''r'' then CHR 0x0D
      else if e = CHR ''t'' then CHR 0x09 else e)"

definition is_high :: "nat \<Rightarrow> bool" where "is_high u \<longleftrightarrow> 55296 \<le> u \<and> u \<le> 56319"

definition is_low :: "nat \<Rightarrow> bool" where "is_low u \<longleftrightarrow> 56320 \<le> u \<and> u \<le> 57343"

lemma tl_Cons_length: "tl s = x # xs \<Longrightarrow> length xs < length s"
  by (cases s) auto

text \<open>
  \<open>unquoteBytes\<close> on a scanned body. A high surrogate takes the low surrogate escape after it; any
  other surrogate is U+FFFD, as is a byte that starts no valid rune.
\<close>

definition unicode_escape :: "string \<Rightarrow> nat option" where
  "unicode_escape s =
     (if 6 \<le> length s \<and> hd s = backslash \<and> s ! 1 = CHR ''u'' \<and> list_all is_hex (take 4 (drop 2 s))
      then Some (hex_value 0 (take 4 (drop 2 s))) else None)"

function unquote :: "string \<Rightarrow> string" where
  "unquote s =
     (if s = [] then []
      else if hd s = backslash then
        (case unicode_escape s of
           Some u \<Rightarrow>
             (case unicode_escape (drop 6 s) of
                Some v \<Rightarrow>
                  if is_high u \<and> is_low v
                  then utf8_encode (65536 + (u - 55296) * 1024 + (v - 56320)) @ unquote (drop 12 s)
                  else utf8_encode u @ unquote (drop 6 s)
              | None \<Rightarrow> utf8_encode u @ unquote (drop 6 s))
         | None \<Rightarrow>
             (case tl s of [] \<Rightarrow> [] | e # ds \<Rightarrow> unescape_char e # unquote ds))
      else if rune_width s = 0 then replacement @ unquote (tl s)
      else take (rune_width s) s @ unquote (drop (rune_width s) s))"
  by pat_completeness auto
termination
proof (relation "measure length", goal_cases)
  case (7 s)
  then show ?case using rune_width_le [of s] by (cases s) auto
qed (simp_all add: tl_Cons_length)

declare unquote.simps [simp del]

section \<open>Parsing\<close>

definition span_digits :: "string \<Rightarrow> string \<times> string" where
  "span_digits s = (takeWhile is_digit s, dropWhile is_digit s)"

definition scan_fraction :: "string \<Rightarrow> (string \<times> string) option" where
  "scan_fraction s =
     (case s of
        c # cs \<Rightarrow>
          if c = CHR ''.'' then
            (let (ds, r) = span_digits cs in if ds = [] then None else Some (c # ds, r))
          else Some ([], s)
      | [] \<Rightarrow> Some ([], s))"

definition scan_exponent :: "string \<Rightarrow> (string \<times> string) option" where
  "scan_exponent s =
     (case s of
        c # cs \<Rightarrow>
          if c = CHR ''e'' \<or> c = CHR ''E'' then
            (let sign = takeWhile (\<lambda>x. x = CHR ''+'' \<or> x = CHR ''-'') (take 1 cs);
                 (ds, r) = span_digits (drop (length sign) cs) in
             if ds = [] then None else Some (c # sign @ ds, r))
          else Some ([], s)
      | [] \<Rightarrow> Some ([], s))"

definition scan_integer :: "string \<Rightarrow> (string \<times> string) option" where
  "scan_integer s =
     (case s of
        c # cs \<Rightarrow>
          if c = CHR ''0'' then Some ([c], cs)
          else if is_digit c then Some (c # takeWhile is_digit cs, dropWhile is_digit cs)
          else None
      | [] \<Rightarrow> None)"

definition scan_number :: "string \<Rightarrow> (string \<times> string) option" where
  "scan_number s =
     (let sign = takeWhile (\<lambda>c. c = CHR ''-'') (take 1 s) in
      case scan_integer (drop (length sign) s) of
        None \<Rightarrow> None
      | Some (i, r) \<Rightarrow>
          (case scan_fraction r of
             None \<Rightarrow> None
           | Some (f, r') \<Rightarrow>
               (case scan_exponent r' of
                  None \<Rightarrow> None
                | Some (e, r'') \<Rightarrow> Some (sign @ i @ f @ e, r''))))"

text \<open>
  The grammar. The first argument is fuel and the second the nesting that is still allowed; the
  input starts at the value, and what follows the value is returned. \<open>parse_elements\<close> and
  \<open>parse_members\<close> read the inside of an array or object up to its closing bracket.
\<close>

fun parse_value :: "nat \<Rightarrow> nat \<Rightarrow> string \<Rightarrow> (json \<times> string) option"
  and parse_elements :: "nat \<Rightarrow> nat \<Rightarrow> string \<Rightarrow> (json list \<times> string) option"
  and parse_members :: "nat \<Rightarrow> nat \<Rightarrow> string \<Rightarrow> ((string \<times> json) list \<times> string) option" where
  "parse_value 0 d s = None"
| "parse_value (Suc n) d s =
     (case s of
        [] \<Rightarrow> None
      | c # cs \<Rightarrow>
          if c = dquote then map_option (\<lambda>(b, r). (JStr (unquote b), r)) (scan_body cs)
          else if c = CHR ''['' then
            (if d = 0 then None
             else if take 1 (skip_ws cs) = '']'' then Some (JArr [], tl (skip_ws cs))
             else map_option (\<lambda>(vs, r). (JArr vs, r)) (parse_elements n (d - 1) (skip_ws cs)))
          else if c = CHR ''{'' then
            (if d = 0 then None
             else if take 1 (skip_ws cs) = ''}'' then Some (JObj [], tl (skip_ws cs))
             else map_option (\<lambda>(ms, r). (JObj ms, r)) (parse_members n (d - 1) (skip_ws cs)))
          else if prefix ''true'' s then Some (JBool True, drop 4 s)
          else if prefix ''false'' s then Some (JBool False, drop 5 s)
          else if prefix ''null'' s then Some (JNull, drop 4 s)
          else map_option (\<lambda>(t, r). (JNum t, r)) (scan_number s))"
| "parse_elements 0 d s = None"
| "parse_elements (Suc n) d s =
     (case parse_value n d s of
        None \<Rightarrow> None
      | Some (v, r) \<Rightarrow>
          (case skip_ws r of
             [] \<Rightarrow> None
           | c # r' \<Rightarrow>
               if c = CHR '']'' then Some ([v], r')
               else if c = CHR '','' then
                 map_option (\<lambda>(vs, r). (v # vs, r)) (parse_elements n d (skip_ws r'))
               else None))"
| "parse_members 0 d s = None"
| "parse_members (Suc n) d s =
     (case s of
        [] \<Rightarrow> None
      | q # cs \<Rightarrow>
          if q \<noteq> dquote then None
          else (case scan_body cs of
             None \<Rightarrow> None
           | Some (k, r) \<Rightarrow>
               (case skip_ws r of
                  [] \<Rightarrow> None
                | c # r1 \<Rightarrow>
                    if c \<noteq> CHR '':'' then None
                    else (case parse_value n d (skip_ws r1) of
                       None \<Rightarrow> None
                     | Some (v, r2) \<Rightarrow>
                         (case skip_ws r2 of
                            [] \<Rightarrow> None
                          | c' # r3 \<Rightarrow>
                              if c' = CHR ''}'' then Some ([(unquote k, v)], r3)
                              else if c' = CHR '','' then
                                map_option (\<lambda>(ms, r). ((unquote k, v) # ms, r))
                                  (parse_members n d (skip_ws r3))
                              else None)))))"

definition json_fuel :: "string \<Rightarrow> nat" where "json_fuel s = 2 * length s + 2"

definition max_nesting :: nat where "max_nesting = 10000"

definition json_parse :: "string \<Rightarrow> json option" where
  "json_parse s =
     (case parse_value (json_fuel s) max_nesting (skip_ws s) of
        Some (v, r) \<Rightarrow> if skip_ws r = [] then Some v else None
      | None \<Rightarrow> None)"

definition json_valid :: "string \<Rightarrow> bool" where
  "json_valid s \<longleftrightarrow> json_parse s \<noteq> None"

section \<open>Printing\<close>

definition hex4 :: "nat \<Rightarrow> string" where
  "hex4 n = map hex_digit [n div 4096 mod 16, n div 256 mod 16, n div 16 mod 16, n mod 16]"

definition u_escape :: "nat \<Rightarrow> string" where
  "u_escape n = backslash # CHR ''u'' # hex4 n"

definition html_char :: "char \<Rightarrow> bool" where
  "html_char c \<longleftrightarrow> c = CHR ''<'' \<or> c = CHR ''>'' \<or> c = CHR ''&''"

definition escape_ascii :: "bool \<Rightarrow> char \<Rightarrow> string" where
  "escape_ascii html c =
     (if c = dquote \<or> c = backslash then [backslash, c]
      else if c = CHR 0x08 then [backslash, CHR ''b''] else if c = CHR 0x0C then [backslash, CHR ''f'']
      else if c = CHR 0x0A then [backslash, CHR ''n''] else if c = CHR 0x0D then [backslash, CHR ''r'']
      else if c = CHR 0x09 then [backslash, CHR ''t'']
      else if byte c < 32 \<or> html \<and> html_char c then u_escape (byte c)
      else [c])"

definition line_separator :: "string \<Rightarrow> bool" where
  "line_separator s \<longleftrightarrow>
     take 3 s = [CHR 0xE2, CHR 0x80, CHR 0xA8] \<or> take 3 s = [CHR 0xE2, CHR 0x80, CHR 0xA9]"

text \<open>\<open>appendString\<close>: the body of the literal that Go writes for a string.\<close>

function escape_body :: "bool \<Rightarrow> string \<Rightarrow> string" where
  "escape_body html s =
     (if s = [] then []
      else if byte (hd s) < 128 then escape_ascii html (hd s) @ escape_body html (tl s)
      else if rune_width s = 0 then u_escape 65533 @ escape_body html (tl s)
      else (if line_separator s then u_escape (8232 + (byte (s ! 2) - 168)) else take (rune_width s) s)
           @ escape_body html (drop (rune_width s) s))"
  by pat_completeness auto
termination
proof (relation "measure (\<lambda>(h, s). length s)", goal_cases)
  case (4 html s)
  then show ?case using rune_width_le [of s] by (cases s) auto
qed simp_all

declare escape_body.simps [simp del]

definition quote_json :: "bool \<Rightarrow> string \<Rightarrow> string" where
  "quote_json html s = dquote # escape_body html s @ [dquote]"

text \<open>\<open>appendCompact\<close>: white space outside literals is dropped and HTML characters are escaped.\<close>

fun compact :: "bool \<Rightarrow> bool \<Rightarrow> string \<Rightarrow> string" where
  "compact html in_str [] = []"
| "compact html in_str (c # cs) =
     (if \<not> in_str then
        (if json_space c then compact html False cs else c # compact html (c = dquote) cs)
      else if c = backslash then
        (case cs of [] \<Rightarrow> [c] | e # ds \<Rightarrow> c # e # compact html True ds)
      else if html \<and> html_char c then u_escape (byte c) @ compact html True cs
      else if html \<and> line_separator (c # cs) then
        u_escape (8232 + (byte ((c # cs) ! 2) - 168)) @ compact html True (drop 2 cs)
      else c # compact html (c \<noteq> dquote) cs)"

text \<open>Marshalling a \<open>json.RawMessage\<close>: a nil message is \<open>null\<close>, an invalid one is an error.\<close>

definition marshal_raw :: "string \<Rightarrow> string option" where
  "marshal_raw s =
     (if s = [] then Some ''null'' else if json_valid s then Some (compact True False s) else None)"

fun print_json :: "json \<Rightarrow> string" where
  "print_json JNull = ''null''"
| "print_json (JBool b) = (if b then ''true'' else ''false'')"
| "print_json (JNum t) = t"
| "print_json (JStr s) = quote_json True s"
| "print_json (JArr vs) = ''['' @ join_with '','' (map print_json vs) @ '']''"
| "print_json (JObj ms) =
     ''{'' @ join_with '','' (map (\<lambda>(k, v). quote_json True k @ '':'' @ print_json v) ms) @ ''}''"

definition print_object :: "(string \<times> string) list \<Rightarrow> string" where
  "print_object fields =
     ''{'' @ join_with '','' (map (\<lambda>(k, v). quote_json True k @ '':'' @ v) fields) @ ''}''"

section \<open>Decoding into structs\<close>

text \<open>
  \<open>foldName\<close>: upper case for ASCII letters; U+017F and U+212A are the only other characters that
  fold to ASCII.
\<close>

fun fold_name :: "string \<Rightarrow> string" where
  "fold_name [] = []"
| "fold_name (c # cs) =
     (if take 2 (c # cs) = [CHR 0xC5, CHR 0xBF] then CHR ''S'' # fold_name (drop 1 cs)
      else if take 3 (c # cs) = [CHR 0xE2, CHR 0x84, CHR 0xAA] then CHR ''K'' # fold_name (drop 2 cs)
      else (if 97 \<le> byte c \<and> byte c \<le> 122 then char_of (byte c - 32) else c) # fold_name cs)"

text \<open>The members of an object and the elements of an array with the raw bytes of their values.\<close>

definition slice_before :: "string \<Rightarrow> string \<Rightarrow> string" where
  "slice_before s rest = take (length s - length rest) s"

fun raw_elements_loop :: "nat \<Rightarrow> string \<Rightarrow> string list" where
  "raw_elements_loop 0 s = []"
| "raw_elements_loop (Suc n) s =
     (case parse_value (json_fuel s) max_nesting s of
        None \<Rightarrow> []
      | Some (_, r) \<Rightarrow>
          slice_before s r #
          (case skip_ws r of
             c # r' \<Rightarrow> if c = CHR '','' then raw_elements_loop n (skip_ws r') else []
           | [] \<Rightarrow> []))"

fun raw_members_loop :: "nat \<Rightarrow> string \<Rightarrow> (string \<times> string) list" where
  "raw_members_loop 0 s = []"
| "raw_members_loop (Suc n) s =
     (case scan_body (tl s) of
        None \<Rightarrow> []
      | Some (k, r) \<Rightarrow>
          (let v = skip_ws (tl (skip_ws r)) in
           case parse_value (json_fuel v) max_nesting v of
             None \<Rightarrow> []
           | Some (_, r') \<Rightarrow>
               (unquote k, slice_before v r') #
               (case skip_ws r' of
                  c # r'' \<Rightarrow> if c = CHR '','' then raw_members_loop n (skip_ws r'') else []
                | [] \<Rightarrow> [])))"

text \<open>
  What \<open>json.Unmarshal\<close> sees of a struct: the members of an object, none for \<open>null\<close>, and an error
  for invalid JSON or another value.
\<close>

definition struct_members :: "string \<Rightarrow> (string \<times> string) list option" where
  "struct_members s =
     (case json_parse s of
        None \<Rightarrow> None
      | Some JNull \<Rightarrow> Some []
      | Some (JObj ms) \<Rightarrow> Some (raw_members_loop (length ms) (skip_ws (tl (skip_ws s))))
      | Some _ \<Rightarrow> None)"

definition array_elements :: "string \<Rightarrow> string list option" where
  "array_elements s =
     (case json_parse s of
        None \<Rightarrow> None
      | Some JNull \<Rightarrow> Some []
      | Some (JArr vs) \<Rightarrow> Some (raw_elements_loop (length vs) (skip_ws (tl (skip_ws s))))
      | Some _ \<Rightarrow> None)"

definition field_raws :: "string list \<Rightarrow> string \<Rightarrow> (string \<times> string) list \<Rightarrow> string list" where
  "field_raws names name ms =
     map snd (filter (\<lambda>(k, _). k = name \<or> k \<notin> set names \<and> fold_name k = fold_name name) ms)"

fun decode_field :: "(string \<Rightarrow> 'a option) \<Rightarrow> 'a \<Rightarrow> string list \<Rightarrow> 'a option" where
  "decode_field dec v [] = Some v"
| "decode_field dec v (raw # raws) =
     (if raw = ''null'' then decode_field dec v raws
      else (case dec raw of None \<Rightarrow> None | Some v' \<Rightarrow> decode_field dec v' raws))"

fun decode_ptr :: "(string \<Rightarrow> 'a option) \<Rightarrow> 'a option \<Rightarrow> string list \<Rightarrow> 'a option option" where
  "decode_ptr dec v [] = Some v"
| "decode_ptr dec v (raw # raws) =
     (if raw = ''null'' then decode_ptr dec None raws
      else (case dec raw of None \<Rightarrow> None | Some v' \<Rightarrow> decode_ptr dec (Some v') raws))"

definition dec_string :: "string \<Rightarrow> string option" where
  "dec_string raw =
     (if take 1 raw = [dquote]
      then (case scan_body (tl raw) of Some (b, []) \<Rightarrow> Some (unquote b) | _ \<Rightarrow> None) else None)"

definition dec_int64 :: "string \<Rightarrow> int option" where
  "dec_int64 raw = (if take 1 raw = ''+'' then None else parse_int64 raw)"

definition dec_bool :: "string \<Rightarrow> bool option" where
  "dec_bool raw = (if raw = ''true'' then Some True else if raw = ''false'' then Some False else None)"

section \<open>Lemmas: string literals\<close>

lemma hex_val_digit: "n < 16 \<Longrightarrow> hex_val (hex_digit n) = Some n"
  by (auto simp: hex_val_def hex_digit_def Let_def)

lemma is_hex_hex4: "list_all is_hex (hex4 n)"
  by (simp add: hex4_def is_hex_def hex_val_digit)

lemma hex_value_hex4:
  assumes "n < 65536"
  shows "hex_value 0 (hex4 n) = n"
proof -
  have d: "n div 4096 mod 16 = n div 4096" using assms by simp
  moreover have "n mod 4096 = 256 * (n div 256 mod 16) + n mod 256"
    using mod_mult2_eq [of n 256 16] by simp
  moreover have "n mod 256 = 16 * (n div 16 mod 16) + n mod 16"
    using mod_mult2_eq [of n 16 16] by simp
  moreover have "n = 4096 * (n div 4096) + n mod 4096" by simp
  ultimately have "4096 * (n div 4096) + 256 * (n div 256 mod 16) + 16 * (n div 16 mod 16) + n mod 16
      = n"
    by linarith
  moreover have "n div 4096 < 16" using assms by simp
  ultimately show ?thesis
    using d by (simp add: hex4_def hex_val_digit)
qed

lemma length_hex4 [simp]: "length (hex4 n) = 4"
  by (simp add: hex4_def)

lemma special_bytes [simp]:
  "byte dquote = 34" "byte backslash = 92" "dquote \<noteq> backslash" "backslash \<noteq> dquote"
  by (simp_all add: dquote_def backslash_def byte_def)

lemma rune_width_take:
  assumes "rune_width s \<noteq> 0"
  shows "rune_width (take (rune_width s) s @ t) = rune_width s"
  using assms by (cases s) (auto split: list.splits if_splits)

lemma take_1_eq: "take (Suc 0) s = [c] \<longleftrightarrow> (\<exists>cs. s = c # cs)"
  by (cases s) auto

lemma unquote_Nil [simp]: "unquote [] = []"
  by (subst unquote.simps) simp

lemma unquote_simple:
  "e \<noteq> CHR ''u'' \<Longrightarrow> unquote (backslash # e # t) = unescape_char e # unquote t"
  by (subst unquote.simps) (simp add: unicode_escape_def)

lemma unquote_u_escape:
  assumes "n < 65536" "\<not> is_high n"
  shows "unquote (u_escape n @ t) = utf8_encode n @ unquote t"
proof -
  have "unicode_escape (u_escape n @ t) = Some n"
    using assms by (simp add: u_escape_def unicode_escape_def is_hex_hex4 hex_value_hex4)
  with assms(2) show ?thesis
    by (subst unquote.simps) (simp add: u_escape_def split: option.splits)
qed

lemma unquote_rune:
  assumes "rune_width s \<noteq> 0" "hd s \<noteq> backslash"
  shows "unquote (take (rune_width s) s @ t) = take (rune_width s) s @ unquote t"
proof -
  let ?w = "rune_width s"
  have len: "?w \<le> length s" by (rule rune_width_le)
  with assms(1) have s: "s \<noteq> []" by auto
  then have hd: "hd (take ?w s @ t) \<noteq> backslash"
    using assms by (cases s) (auto simp: take_Cons split: nat.splits)
  have "take ?w s \<noteq> []" using assms(1) s by auto
  with hd assms(1) len show ?thesis
    by (subst unquote.simps) (simp add: rune_width_take)
qed

lemma escape_body_Nil [simp]: "escape_body html [] = []"
  by (subst escape_body.simps) simp

lemma escape_body_ascii:
  "byte c < 128 \<Longrightarrow> escape_body html (c # s) = escape_ascii html c @ escape_body html s"
  by (subst escape_body.simps) simp

lemma utf8_sanitize_Nil [simp]: "utf8_sanitize [] = []"
  by (subst utf8_sanitize.simps) simp

lemma utf8_sanitize_ascii: "byte c < 128 \<Longrightarrow> utf8_sanitize (c # s) = c # utf8_sanitize s"
  by (subst utf8_sanitize.simps) simp

lemma utf8_encode_ascii: "byte c < 128 \<Longrightarrow> utf8_encode (byte c) = [c]"
  by (simp add: utf8_encode_def)

lemma escape_ascii_cases:
  obtains (simple) e where "escape_ascii html c = [backslash, e]" "e \<in> set simple_escapes"
      "e \<noteq> CHR ''u''" "unescape_char e = c"
  | (unicode) "escape_ascii html c = u_escape (byte c)"
  | (plain) "escape_ascii html c = [c]" "c \<noteq> backslash" "c \<noteq> dquote" "32 \<le> byte c"
proof -
  have named: ?thesis if "escape_ascii html c = [backslash, e]" "e \<in> set simple_escapes"
    "e \<noteq> CHR ''u''" "unescape_char e = c" for e
    using that by (rule simple)
  consider "c \<in> {dquote, backslash}" | "c \<in> {CHR 0x08, CHR 0x0C, CHR 0x0A, CHR 0x0D, CHR 0x09}"
    | "c \<notin> {dquote, backslash, CHR 0x08, CHR 0x0C, CHR 0x0A, CHR 0x0D, CHR 0x09}" by blast
  then show ?thesis
  proof cases
    case 1
    then show ?thesis
      by (intro named [of c])
        (auto simp: escape_ascii_def simple_escapes_def dquote_def backslash_def unescape_char_def)
  next
    case 2
    then obtain e where "(c, e) \<in> {(CHR 0x08, CHR ''b''), (CHR 0x0C, CHR ''f''), (CHR 0x0A, CHR ''n''),
        (CHR 0x0D, CHR ''r''), (CHR 0x09, CHR ''t'')}"
      by blast
    then show ?thesis
      by (intro named [of e])
        (auto simp: escape_ascii_def simple_escapes_def dquote_def backslash_def unescape_char_def)
  next
    case 3
    show ?thesis
    proof (cases "byte c < 32 \<or> html \<and> html_char c")
      case True
      with 3 show ?thesis by (intro unicode) (simp add: escape_ascii_def)
    next
      case False
      with 3 show ?thesis by (intro plain) (auto simp: escape_ascii_def)
    qed
  qed
qed

lemma unquote_escape_ascii:
  assumes "byte c < 128"
  shows "unquote (escape_ascii html c @ t) = c # unquote t"
proof (cases rule: escape_ascii_cases [of html c])
  case (simple e)
  then show ?thesis by (simp add: unquote_simple)
next
  case unicode
  with assms show ?thesis
    by (simp add: unquote_u_escape is_high_def utf8_encode_ascii)
next
  case plain
  with assms show ?thesis by (subst unquote.simps) simp
qed

lemma rune_width_ascii: "s \<noteq> [] \<Longrightarrow> byte (hd s) < 128 \<Longrightarrow> rune_width s = 1"
  by (cases s) auto

lemma take_3_eq: "take 3 s = [a, b, c] \<longleftrightarrow> (\<exists>t. s = a # b # c # t)"
  by (cases s; cases "tl s"; cases "tl (tl s)") auto

lemma char_of_eq: "n < 256 \<Longrightarrow> char_of n = c \<longleftrightarrow> n = byte c"
  by (auto simp: byte_def)

lemma separator_bytes [simp]:
  "byte (CHR 0xE2) = 226" "byte (CHR 0x80) = 128" "byte (CHR 0xA8) = 168" "byte (CHR 0xA9) = 169"
  "byte (CHR 0xEF) = 239" "byte (CHR 0xBF) = 191" "byte (CHR 0xBD) = 189"
  by (simp_all add: byte_def)

lemma utf8_encode_separators:
  "utf8_encode 8232 = [CHR 0xE2, CHR 0x80, CHR 0xA8]"
  "utf8_encode 8233 = [CHR 0xE2, CHR 0x80, CHR 0xA9]"
  "utf8_encode 65533 = replacement"
  by (simp_all add: utf8_encode_def char_of_eq replacement_def)

lemma line_separatorE:
  assumes "line_separator s"
  obtains n where "8232 + (byte (s ! 2) - 168) = n" "utf8_encode n = take 3 s" "rune_width s = 3"
    "n < 65536" "\<not> is_high n"
proof -
  consider t where "s = CHR 0xE2 # CHR 0x80 # CHR 0xA8 # t" | t where "s = CHR 0xE2 # CHR 0x80 # CHR 0xA9 # t"
    using assms by (auto simp: line_separator_def take_3_eq)
  then show ?thesis
  proof cases
    case 1
    then show ?thesis
      by (intro that [of 8232]) (simp_all add: utf8_encode_separators cont_byte_def is_high_def)
  next
    case 2
    then show ?thesis
      by (intro that [of 8233]) (simp_all add: utf8_encode_separators cont_byte_def is_high_def)
  qed
qed

lemma unquote_escape_body: "unquote (escape_body html s) = utf8_sanitize s"
proof (induction html s rule: escape_body.induct)
  case (1 html s)
  consider "s = []" | "s \<noteq> []" "byte (hd s) < 128" | "s \<noteq> []" "\<not> byte (hd s) < 128" "rune_width s = 0"
    | "s \<noteq> []" "\<not> byte (hd s) < 128" "rune_width s \<noteq> 0" by blast
  then show ?case
  proof cases
    case 2
    with 1(1) show ?thesis
      by (cases s) (auto simp: escape_body_ascii utf8_sanitize_ascii unquote_escape_ascii)
  next
    case 3
    have "unquote (u_escape 65533 @ t) = replacement @ unquote t" for t
      by (simp add: unquote_u_escape is_high_def utf8_encode_separators)
    with 3 1(2) show ?thesis
      by (subst escape_body.simps, subst utf8_sanitize.simps) simp
  next
    case 4
    then have hd: "hd s \<noteq> backslash" by auto
    show ?thesis
    proof (cases "line_separator s")
      case True
      then obtain n where "8232 + (byte (s ! 2) - 168) = n" "utf8_encode n = take 3 s"
        "rune_width s = 3" "n < 65536" "\<not> is_high n"
        by (rule line_separatorE)
      with True 4 1(3) show ?thesis
        by (subst escape_body.simps, subst utf8_sanitize.simps) (simp add: unquote_u_escape)
    next
      case False
      with hd 4 1(3) show ?thesis
        by (subst escape_body.simps, subst utf8_sanitize.simps) (simp add: unquote_rune)
    qed
  qed simp
qed

lemma scan_body_plain:
  "c \<noteq> dquote \<Longrightarrow> c \<noteq> backslash \<Longrightarrow> 32 \<le> byte c \<Longrightarrow>
     scan_body (c # cs) = map_option (\<lambda>(b, r). (c # b, r)) (scan_body cs)"
  by simp

lemma scan_body_plains:
  "list_all (\<lambda>c. 128 \<le> byte c) xs \<Longrightarrow>
     scan_body (xs @ t) = map_option (\<lambda>(b, r). (xs @ b, r)) (scan_body t)"
proof (induction xs)
  case (Cons c xs)
  then have "c \<noteq> dquote" "c \<noteq> backslash" "32 \<le> byte c" by auto
  with Cons show ?case
    by (cases "scan_body t") (auto simp: scan_body_plain simp del: scan_body.simps)
qed (cases "scan_body t"; auto)

lemma scan_body_u_escape:
  "scan_body (u_escape n @ t) = map_option (\<lambda>(b, r). (u_escape n @ b, r)) (scan_body t)"
proof -
  have "CHR ''u'' \<notin> set simple_escapes"
    by (simp add: simple_escapes_def)
  then show ?thesis by (simp add: u_escape_def is_hex_hex4)
qed

lemma scan_body_escape_ascii:
  "scan_body (escape_ascii html c @ t)
     = map_option (\<lambda>(b, r). (escape_ascii html c @ b, r)) (scan_body t)"
proof (cases rule: escape_ascii_cases [of html c])
  case (simple e)
  then show ?thesis by simp
next
  case unicode
  then show ?thesis by (simp add: scan_body_u_escape)
next
  case plain
  then show ?thesis by simp
qed

lemma rune_bytes_high:
  assumes "s \<noteq> []" "\<not> byte (hd s) < 128"
  shows "list_all (\<lambda>c. 128 \<le> byte c) (take (rune_width s) s)"
  using assms by (cases s) (auto simp: cont_byte_def split: list.splits)

lemma scan_body_escape_body:
  "scan_body (escape_body html s @ dquote # r) = Some (escape_body html s, r)"
proof (induction html s rule: escape_body.induct)
  case (1 html s)
  consider "s = []" | "s \<noteq> []" "byte (hd s) < 128" | "s \<noteq> []" "\<not> byte (hd s) < 128" "rune_width s = 0"
    | "s \<noteq> []" "\<not> byte (hd s) < 128" "rune_width s \<noteq> 0" by blast
  then show ?case
  proof cases
    case 2
    with 1(1) show ?thesis
      by (subst (1 2) escape_body.simps) (simp add: scan_body_escape_ascii)
  next
    case 3
    with 1(2) show ?thesis
      by (subst (1 2) escape_body.simps) (simp add: scan_body_u_escape)
  next
    case 4
    with 1(3) rune_bytes_high [of s] show ?thesis
      by (subst (1 2) escape_body.simps) (simp add: scan_body_u_escape scan_body_plains)
  qed simp
qed

lemma dec_string_quote: "dec_string (quote_json html s) = Some (utf8_sanitize s)"
  by (simp add: dec_string_def quote_json_def scan_body_escape_body unquote_escape_body)

section \<open>Lemmas: the parser consumes its input and has enough fuel\<close>

lemma skip_ws_le: "length (skip_ws s) \<le> length s"
  by (simp add: skip_ws_def length_dropWhile_le)

lemma skip_ws_Cons_le: "skip_ws s = c # r \<Longrightarrow> length r < length s"
  using skip_ws_le [of s] by simp

lemma scan_body_less: "scan_body s = Some (b, r) \<Longrightarrow> length r < length s"
proof (induction s arbitrary: b r rule: scan_body.induct)
  case (2 c cs)
  then show ?case
    by (auto split: if_splits list.splits dest: less_SucI) (fastforce dest: less_SucI)+
qed simp

lemma scan_number_less: "scan_number s = Some (t, r) \<Longrightarrow> length r < length s"
proof -
  have le: "length (dropWhile is_digit x) \<le> length x" for x by (rule length_dropWhile_le)
  have "scan_integer x = Some (i, y) \<Longrightarrow> length y < length x" for x i y
    using le [of "tl x"] by (auto simp: scan_integer_def split: list.splits if_splits)
  moreover have "scan_fraction x = Some (i, y) \<Longrightarrow> length y \<le> length x" for x i y
    using le [of "tl x"]
    by (auto simp: scan_fraction_def span_digits_def Let_def split: list.splits if_splits)
  moreover have "scan_exponent x = Some (i, y) \<Longrightarrow> length y \<le> length x" for x i y
    using le [of "drop (length (takeWhile (\<lambda>x. x = CHR ''+'' \<or> x = CHR ''-'') (take 1 (tl x)))) (tl x)"]
    by (auto simp: scan_exponent_def span_digits_def Let_def split: list.splits if_splits)
  ultimately show "scan_number s = Some (t, r) \<Longrightarrow> length r < length s"
    by (fastforce simp: scan_number_def Let_def split: option.splits prod.splits
        dest: order_le_less_trans order_less_le_trans)
qed

end
