(* ===== verification/Json_Roundtrip.thy ===== *)
theory Json_Roundtrip
  imports Json
begin

text \<open>
  The JSON parser of \<open>Json\<close> consumes its input, its fuel suffices, and it inverts the printer: the
  printed form of a value parses to the value with the UTF-8 of its strings repaired.
\<close>

section \<open>Consumption and fuel\<close>

lemma parse_less:
  "parse_value n d s = Some (v, r) \<Longrightarrow> length r < length s"
  "parse_elements n d s = Some (vs, r) \<Longrightarrow> length r < length s"
  "parse_members n d s = Some (ms, r) \<Longrightarrow> length r < length s"
proof (induction n d s and n d s and n d s arbitrary: v r and vs r and ms r
    rule: parse_value_parse_elements_parse_members.induct)
  case (2 n d s)
  show ?case
  proof (cases s)
    case (Cons c cs)
    have ws: "length (skip_ws cs) \<le> length cs" "length (tl (skip_ws cs)) \<le> length cs"
      using skip_ws_le [of cs] by auto
    from 2 Cons ws show ?thesis
      by (auto split: if_splits dest!: scan_body_less scan_number_less) fastforce+
  qed (use 2 in simp)
next
  case (4 n d s)
  then show ?case
    by (fastforce split: option.splits list.splits if_splits
        dest: skip_ws_Cons_le order_less_trans order_less_le_trans [OF _ skip_ws_le])
next
  case (6 n d s)
  then show ?case
    by (fastforce split: option.splits list.splits if_splits
        dest: skip_ws_Cons_le scan_body_less order_less_trans order_less_le_trans [OF _ skip_ws_le])
qed simp_all

lemma parse_value_cong:
  assumes "\<And>cs. s = CHR ''['' # cs \<Longrightarrow> 0 < d \<Longrightarrow>
      parse_elements n (d - 1) (skip_ws cs) = parse_elements m (d - 1) (skip_ws cs)"
    and "\<And>cs. s = CHR ''{'' # cs \<Longrightarrow> 0 < d \<Longrightarrow>
      parse_members n (d - 1) (skip_ws cs) = parse_members m (d - 1) (skip_ws cs)"
  shows "parse_value (Suc n) d s = parse_value (Suc m) d s"
proof (cases s)
  case (Cons c cs)
  with assms [of cs] show ?thesis by auto
qed simp

lemma parse_fuel:
  "2 * length s + 1 \<le> n \<Longrightarrow> 2 * length s + 1 \<le> m \<Longrightarrow> parse_value n d s = parse_value m d s"
  "2 * length s + 2 \<le> n \<Longrightarrow> 2 * length s + 2 \<le> m \<Longrightarrow> parse_elements n d s = parse_elements m d s"
  "2 * length s + 2 \<le> n \<Longrightarrow> 2 * length s + 2 \<le> m \<Longrightarrow> parse_members n d s = parse_members m d s"
proof (induction n arbitrary: m d s)
  case (Suc n)
  {
    case 1
    then obtain m' where m: "m = Suc m'" by (cases m) auto
    have inside: "2 * length (skip_ws cs) + 2 \<le> k" if "s = c # cs" "2 * length s \<le> k" for c cs k
      using that skip_ws_le [of cs] by simp
    from 1 m show ?case
      by (auto intro!: parse_value_cong Suc.IH(2,3) inside simp del: parse_value.simps)
  next
    case 2
    then obtain m' where m: "m = Suc m'" by (cases m) auto
    with 2 have v: "parse_value n d s = parse_value m' d s" by (intro Suc.IH(1)) auto
    have rest: "parse_elements n d (skip_ws r') = parse_elements m' d (skip_ws r')"
      if "parse_value m' d s = Some (w, r)" "skip_ws r = c # r'" for w r c r'
      using parse_less(1) [OF that(1)] skip_ws_Cons_le [OF that(2)] skip_ws_le [of r'] 2 m
      by (intro Suc.IH(2)) auto
    show ?case
      by (auto simp: m v rest split: option.splits list.splits)
  next
    case 3
    then obtain m' where m: "m = Suc m'" by (cases m) auto
    have v: "parse_value n d (skip_ws r1) = parse_value m' d (skip_ws r1)"
      if "s = q # cs" "scan_body cs = Some (k, r)" "skip_ws r = c # r1" for q cs k r c r1
      using scan_body_less [OF that(2)] skip_ws_Cons_le [OF that(3)] skip_ws_le [of r1] that(1) 3 m
      by (intro Suc.IH(1)) auto
    have rest: "parse_members n d (skip_ws r3) = parse_members m' d (skip_ws r3)"
      if "s = q # cs" "scan_body cs = Some (k, r)" "skip_ws r = c # r1"
        "parse_value m' d (skip_ws r1) = Some (w, r2)" "skip_ws r2 = c' # r3"
      for q cs k r c r1 w r2 c' r3
      using scan_body_less [OF that(2)] skip_ws_Cons_le [OF that(3)] skip_ws_le [of r1]
        parse_less(1) [OF that(4)] skip_ws_Cons_le [OF that(5)] skip_ws_le [of r3] that(1) 3 m
      by (intro Suc.IH(3)) auto
    show ?case
      by (auto simp: m v rest split: option.splits list.splits)
  }
qed simp_all

section \<open>The parser inverts the printer\<close>

text \<open>What may follow a number inside a printed value.\<close>

definition value_end :: "string \<Rightarrow> bool" where
  "value_end r \<longleftrightarrow> r = [] \<or> hd r \<in> {CHR '','', CHR '']'', CHR ''}''}"

definition number_literal :: "string \<Rightarrow> bool" where
  "number_literal t \<longleftrightarrow> scan_number t = Some (t, [])"

lemma value_end_heads:
  assumes "value_end (c # r)"
  shows "\<not> is_digit c" "c \<noteq> CHR ''.''" "c \<noteq> CHR ''e''" "c \<noteq> CHR ''E''" "c \<noteq> CHR ''+''"
    "c \<noteq> CHR ''-''" "c \<noteq> CHR ''0''"
  using assms by (auto simp: value_end_def is_digit_def)

lemma span_end:
  assumes "value_end r"
  shows "takeWhile is_digit (s @ r) = takeWhile is_digit s"
    and "dropWhile is_digit (s @ r) = dropWhile is_digit s @ r"
proof -
  have "takeWhile is_digit r = []" "dropWhile is_digit r = r"
    using assms value_end_heads by (cases r; auto)+
  then show "takeWhile is_digit (s @ r) = takeWhile is_digit s"
    "dropWhile is_digit (s @ r) = dropWhile is_digit s @ r"
    by (induction s) auto
qed

lemma scan_parts_end:
  assumes "value_end r"
  shows "scan_integer (s @ r) = map_option (\<lambda>(i, q). (i, q @ r)) (scan_integer s)"
    and "scan_fraction (s @ r) = map_option (\<lambda>(i, q). (i, q @ r)) (scan_fraction s)"
    and "scan_exponent (s @ r) = map_option (\<lambda>(i, q). (i, q @ r)) (scan_exponent s)"
proof -
  note ends = span_end [OF assms] value_end_heads
  show "scan_integer (s @ r) = map_option (\<lambda>(i, q). (i, q @ r)) (scan_integer s)"
    using assms ends by (cases s; cases r) (auto simp: scan_integer_def)
  show "scan_fraction (s @ r) = map_option (\<lambda>(i, q). (i, q @ r)) (scan_fraction s)"
    using assms ends by (cases s; cases r) (auto simp: scan_fraction_def span_digits_def Let_def)
  show "scan_exponent (s @ r) = map_option (\<lambda>(i, q). (i, q @ r)) (scan_exponent s)"
  proof (cases s)
    case Nil
    with assms ends show ?thesis by (cases r) (auto simp: scan_exponent_def)
  next
    case (Cons c cs)
    let ?sign = "\<lambda>x. takeWhile (\<lambda>x. x = CHR ''+'' \<or> x = CHR ''-'') (take 1 x)"
    have "?sign (cs @ r) = ?sign cs"
      using assms ends by (cases cs; cases r) auto
    moreover have "drop (length (?sign cs)) (cs @ r) = drop (length (?sign cs)) cs @ r"
      by (cases cs) auto
    ultimately show ?thesis
      using ends by (simp add: Cons scan_exponent_def span_digits_def Let_def)
  qed
qed

lemma scan_number_end:
  assumes "value_end r" "number_literal t"
  shows "scan_number (t @ r) = Some (t, r)"
proof -
  let ?sign = "\<lambda>x. takeWhile (\<lambda>c. c = CHR ''-'') (take 1 x)"
  have "t \<noteq> []"
    using assms(2) by (auto simp: number_literal_def scan_number_def scan_integer_def)
  then have "?sign (t @ r) = ?sign t" "drop (length (?sign t)) (t @ r) = drop (length (?sign t)) t @ r"
    by (cases t; simp)+
  then show ?thesis
    using assms(2) scan_parts_end [OF assms(1)]
    by (auto simp: number_literal_def scan_number_def Let_def split: option.splits)
qed

text \<open>
  The text \<open>t\<close> parses to \<open>v\<close> wherever a value may stand, if \<open>k\<close> levels of nesting are allowed.
\<close>

definition parses :: "nat \<Rightarrow> string \<Rightarrow> json \<Rightarrow> bool" where
  "parses k t v \<longleftrightarrow>
     (\<exists>c cs. t = c # cs \<and> \<not> json_space c \<and> c \<noteq> CHR '']'') \<and>
     (\<forall>d\<ge>k. \<forall>r. value_end r \<longrightarrow> (\<exists>n0. \<forall>n\<ge>n0. parse_value n d (t @ r) = Some (v, r)))"

lemma parsesI:
  assumes "t = c # cs" "\<not> json_space c" "c \<noteq> CHR '']''"
    and "\<And>d r. k \<le> d \<Longrightarrow> value_end r \<Longrightarrow> \<exists>n0. \<forall>n\<ge>n0. parse_value n d (t @ r) = Some (v, r)"
  shows "parses k t v"
  using assms by (auto simp: parses_def)

lemma parses_SucI:
  assumes "t = c # cs" "\<not> json_space c" "c \<noteq> CHR '']''"
    and "\<And>d r n. value_end r \<Longrightarrow> parse_value (Suc n) d (t @ r) = Some (v, r)"
  shows "parses k t v"
proof (rule parsesI [OF assms(1-3)])
  fix d r
  assume "value_end r"
  with assms(4) have "parse_value n d (t @ r) = Some (v, r)" if "1 \<le> n" for n
    using that by (cases n) auto
  then show "\<exists>n0. \<forall>n\<ge>n0. parse_value n d (t @ r) = Some (v, r)" by blast
qed

lemma parses_value:
  assumes "parses k t v" "k \<le> d" "value_end r" "2 * length (t @ r) + 1 \<le> n"
  shows "parse_value n d (t @ r) = Some (v, r)"
proof -
  obtain n0 where "parse_value m d (t @ r) = Some (v, r)" if "n0 \<le> m" for m
    using assms(1-3) unfolding parses_def by blast
  then have "parse_value (max n n0) d (t @ r) = Some (v, r)" by simp
  with parse_fuel(1) [of "t @ r" n "max n n0" d] assms(4) show ?thesis by simp
qed

lemma parses_mono: "parses k t v \<Longrightarrow> k \<le> k' \<Longrightarrow> parses k' t v"
  by (auto simp: parses_def)

lemma skip_ws_text [simp]: "\<not> json_space c \<Longrightarrow> skip_ws (c # s) = c # s"
  by (simp add: skip_ws_def)

lemma parses_skip_ws: "parses k t v \<Longrightarrow> skip_ws (t @ s) = t @ s"
  by (auto simp: parses_def)

lemma not_space [simp]:
  "\<not> json_space dquote" "\<not> json_space (CHR ''['')" "\<not> json_space (CHR '']'')" "\<not> json_space (CHR ''{'')"
  "\<not> json_space (CHR ''}'')" "\<not> json_space (CHR '':'')" "\<not> json_space (CHR '','')"
  "\<not> json_space (CHR ''t'')" "\<not> json_space (CHR ''f'')" "\<not> json_space (CHR ''n'')"
  by (simp_all add: json_space_def dquote_def)

lemma dquote_neq [simp]:
  "dquote \<noteq> CHR '']''" "dquote \<noteq> CHR ''}''" "CHR ''['' \<noteq> dquote" "CHR ''{'' \<noteq> dquote"
  "CHR ''t'' \<noteq> dquote" "CHR ''f'' \<noteq> dquote" "CHR ''n'' \<noteq> dquote"
  by (simp_all add: dquote_def)

lemma parses_literals: "parses k ''null'' JNull" "parses k ''true'' (JBool True)" "parses k ''false'' (JBool False)"
proof -
  show "parses k ''null'' JNull" by (rule parses_SucI [of _ "CHR ''n''" "''ull''"]) simp_all
  show "parses k ''true'' (JBool True)" by (rule parses_SucI [of _ "CHR ''t''" "''rue''"]) simp_all
  show "parses k ''false'' (JBool False)" by (rule parses_SucI [of _ "CHR ''f''" "''alse''"]) simp_all
qed

lemma parses_string: "parses k (quote_json html s) (JStr (utf8_sanitize s))"
  by (rule parses_SucI [of _ dquote "escape_body html s @ [dquote]"])
    (simp_all add: quote_json_def scan_body_escape_body unquote_escape_body)

lemma number_literal_head:
  assumes "number_literal t"
  obtains c cs where "t = c # cs" "c = CHR ''-'' \<or> is_digit c"
proof (cases t)
  case Nil
  with assms show ?thesis by (simp add: number_literal_def scan_number_def scan_integer_def)
next
  case (Cons c cs)
  moreover have "c = CHR ''-'' \<or> is_digit c"
  proof (rule ccontr)
    assume "\<not> (c = CHR ''-'' \<or> is_digit c)"
    moreover from this have "c \<noteq> CHR ''0''" by (auto simp: is_digit_def)
    ultimately show False
      using assms by (simp add: Cons number_literal_def scan_number_def scan_integer_def Let_def)
  qed
  ultimately show ?thesis using that by blast
qed

lemma parses_number:
  assumes "number_literal t"
  shows "parses k t (JNum t)"
proof -
  obtain c cs where t: "t = c # cs" and c: "c = CHR ''-'' \<or> is_digit c"
    using assms by (rule number_literal_head)
  have other: "c \<noteq> dquote" "c \<noteq> CHR ''[''" "c \<noteq> CHR ''{''" "c \<noteq> CHR '']''" "c \<noteq> CHR ''t''" "c \<noteq> CHR ''f''"
    "c \<noteq> CHR ''n''" "\<not> json_space c"
    using c by (auto simp: is_digit_def dquote_def json_space_def)
  show ?thesis
  proof (rule parses_SucI [OF t])
    fix d r n
    assume "value_end r"
    then have "scan_number (c # cs @ r) = Some (t, r)"
      using scan_number_end [OF _ assms] t by simp
    with other show "parse_value (Suc n) d (t @ r) = Some (JNum t, r)"
      by (simp add: t)
  qed (use other in simp_all)
qed

lemma join_with_Cons: "xs \<noteq> [] \<Longrightarrow> join_with sep (x # xs) = x @ sep @ join_with sep xs"
  by (cases xs) auto

lemma parses_elements:
  assumes "ts \<noteq> []" "list_all2 (parses k) ts vs" "k \<le> d"
    "2 * length (join_with '','' ts @ '']'' @ r) + 2 \<le> n"
  shows "parse_elements n d (join_with '','' ts @ '']'' @ r) = Some (vs, r)"
    and "skip_ws (join_with '','' ts @ '']'' @ r) = join_with '','' ts @ '']'' @ r"
  using assms
proof (induction ts arbitrary: vs n)
  case (Cons t ts)
  {
    case 2
    then obtain v where "parses k t v" by (auto simp: list_all2_Cons1)
    then show ?case
      by (cases ts) (auto simp: parses_skip_ws)
  next
    case 1
    then obtain v vs' where vs: "vs = v # vs'" "parses k t v" "list_all2 (parses k) ts vs'"
      by (auto simp: list_all2_Cons1)
    obtain m where n: "n = Suc m" using 1(4) by (cases n) auto
    show ?case
    proof (cases "ts = []")
      case True
      with 1 n vs parses_value [OF vs(2), of d "'']'' @ r" m] show ?thesis
        by (simp add: value_end_def)
    next
      case False
      let ?rest = "join_with '','' ts @ '']'' @ r"
      have "parse_value m d (t @ '','' @ ?rest) = Some (v, '','' @ ?rest)"
        using 1 n False by (intro parses_value [OF vs(2)]) (auto simp: value_end_def join_with_Cons)
      with Cons.IH [OF False vs(3), of m] 1 n False vs(1) show ?thesis
        by (simp add: join_with_Cons)
    qed
  }
qed simp_all

lemma parses_array:
  assumes "list_all2 (parses k) ts vs"
  shows "parses (Suc k) (''['' @ join_with '','' ts @ '']'') (JArr vs)"
proof (rule parsesI [of _ "CHR ''[''"])
  fix d r
  assume d: "Suc k \<le> d"
  let ?s = "join_with '','' ts @ '']'' @ r"
  have "parse_value n d (''['' @ ?s) = Some (JArr vs, r)" if n: "2 * length ?s + 3 \<le> n" for n
  proof -
    obtain m where m: "n = Suc m" using n by (cases n) auto
    show ?thesis
    proof (cases "ts = []")
      case True
      with assms d m show ?thesis by simp
    next
      case False
      with assms obtain t ts' v where ts: "ts = t # ts'" "parses k t v"
        by (cases ts) (auto simp: list_all2_Cons1)
      then obtain c cs where "t = c # cs" "c \<noteq> CHR '']''"
        by (auto simp: parses_def)
      with ts(1) have "take 1 ?s \<noteq> '']''" by (cases ts') auto
      with parses_elements [OF False assms, of "d - 1" r m] d n m show ?thesis by simp
    qed
  qed
  then show "\<exists>n0. \<forall>n\<ge>n0. parse_value n d ((''['' @ join_with '','' ts @ '']'') @ r) = Some (JArr vs, r)"
    by auto
qed simp_all

definition member_text :: "string \<times> string \<Rightarrow> string" where
  "member_text m = quote_json True (fst m) @ '':'' @ snd m"

definition parses_member :: "nat \<Rightarrow> string \<times> string \<Rightarrow> string \<times> json \<Rightarrow> bool" where
  "parses_member k m kv \<longleftrightarrow> fst kv = utf8_sanitize (fst m) \<and> parses k (snd m) (snd kv)"

lemma print_object_members: "print_object ms = ''{'' @ join_with '','' (map member_text ms) @ ''}''"
proof -
  have "(\<lambda>(k, v). quote_json True k @ '':'' @ v) = member_text"
    by (auto simp: member_text_def)
  then show ?thesis by (simp add: print_object_def)
qed

lemma member_text_head: "member_text m @ s = dquote # escape_body True (fst m) @ dquote # CHR '':'' # snd m @ s"
  by (simp add: member_text_def quote_json_def)

lemma members_head: "ms \<noteq> [] \<Longrightarrow> \<exists>cs. join_with '','' (map member_text ms) @ s = dquote # cs"
  by (cases ms; cases "tl ms") (auto simp: member_text_def quote_json_def)

lemma parse_member_step:
  assumes "parses_member k m kv" "k \<le> d" "value_end r" "2 * length (member_text m @ r) + 1 \<le> n"
  shows "parse_members (Suc n) d (member_text m @ r) =
    (case skip_ws r of
       [] \<Rightarrow> None
     | c' # r3 \<Rightarrow>
         if c' = CHR ''}'' then Some ([kv], r3)
         else if c' = CHR '','' then map_option (\<lambda>(ms, r). (kv # ms, r)) (parse_members n d (skip_ws r3))
         else None)"
proof -
  have p: "parses k (snd m) (snd kv)" and k: "unquote (escape_body True (fst m)) = fst kv"
    using assms(1) by (auto simp: parses_member_def unquote_escape_body)
  have "parse_value n d (snd m @ r) = Some (snd kv, r)"
    using assms by (intro parses_value [OF p]) (auto simp: member_text_def quote_json_def)
  with k show ?thesis
    using parses_skip_ws [OF p, of r]
    by (simp add: member_text_head scan_body_escape_body split: list.split)
qed

lemma parses_members:
  assumes "ms \<noteq> []" "list_all2 (parses_member k) ms kvs" "k \<le> d"
    "2 * length (join_with '','' (map member_text ms) @ ''}'' @ r) + 2 \<le> n"
  shows "parse_members n d (join_with '','' (map member_text ms) @ ''}'' @ r) = Some (kvs, r)"
  using assms
proof (induction ms arbitrary: kvs n)
  case (Cons m ms)
  then obtain kv kvs' where kvs: "kvs = kv # kvs'" "parses_member k m kv"
    "list_all2 (parses_member k) ms kvs'"
    by (auto simp: list_all2_Cons1)
  obtain l where n: "n = Suc l" using Cons.prems(4) by (cases n) auto
  show ?case
  proof (cases "ms = []")
    case True
    with Cons.prems n kvs parse_member_step [OF kvs(2), of d "''}'' @ r" l] show ?thesis
      by (simp add: value_end_def)
  next
    case False
    let ?rest = "join_with '','' (map member_text ms) @ ''}'' @ r"
    have ws: "skip_ws ?rest = ?rest"
      using members_head [OF False] by (metis not_space(1) skip_ws_text)
    have "parse_members n d (member_text m @ '','' @ ?rest)
        = map_option (\<lambda>(ms, r). (kv # ms, r)) (parse_members l d ?rest)"
      using parse_member_step [OF kvs(2), of d "'','' @ ?rest" l] Cons.prems n False ws
      by (simp add: value_end_def join_with_Cons)
    moreover have "parse_members l d ?rest = Some (kvs', r)"
      using Cons.prems n False by (intro Cons.IH [OF False kvs(3)]) (auto simp: join_with_Cons)
    ultimately show ?thesis
      using False kvs(1) by (simp add: join_with_Cons)
  qed
qed simp

lemma parses_object:
  assumes "list_all2 (parses_member k) ms kvs"
  shows "parses (Suc k) (print_object ms) (JObj kvs)"
proof (rule parsesI [of _ "CHR ''{''"])
  fix d r
  assume d: "Suc k \<le> d"
  let ?s = "join_with '','' (map member_text ms) @ ''}'' @ r"
  have "parse_value n d (''{'' @ ?s) = Some (JObj kvs, r)" if n: "2 * length ?s + 3 \<le> n" for n
  proof -
    obtain l where l: "n = Suc l" using n by (cases n) auto
    show ?thesis
    proof (cases "ms = []")
      case True
      with assms d l show ?thesis by simp
    next
      case False
      obtain cs where cs: "?s = dquote # cs" using members_head [OF False] by blast
      have "parse_members l (d - 1) ?s = Some (kvs, r)"
        using d n l by (intro parses_members [OF False assms]) auto
      with d l cs show ?thesis by simp
    qed
  qed
  then show "\<exists>n0. \<forall>n\<ge>n0. parse_value n d (print_object ms @ r) = Some (JObj kvs, r)"
    by (auto simp: print_object_members)
qed (simp_all add: print_object_members)

section \<open>Whole documents\<close>

lemma parses_json_parse:
  assumes "parses k t v" "k \<le> max_nesting"
  shows "json_parse t = Some v"
proof -
  have "skip_ws t = t" using parses_skip_ws [OF assms(1), of "[]"] by simp
  moreover have "parse_value (json_fuel t) max_nesting (t @ []) = Some (v, [])"
    using assms by (intro parses_value) (auto simp: value_end_def json_fuel_def)
  ultimately show ?thesis by (simp add: json_parse_def skip_ws_def)
qed

lemma raw_members_loop_members:
  assumes "list_all2 (parses_member k) ms kvs" "k \<le> max_nesting"
  shows "raw_members_loop (length ms) (join_with '','' (map member_text ms) @ ''}'')
    = map (\<lambda>m. (utf8_sanitize (fst m), snd m)) ms"
  using assms(1)
proof (induction ms arbitrary: kvs)
  case (Cons m ms)
  then obtain kv kvs' where kv: "parses_member k m kv" "list_all2 (parses_member k) ms kvs'"
    by (auto simp: list_all2_Cons1)
  define rest where "rest = (if ms = [] then ''}'' else '','' @ join_with '','' (map member_text ms) @ ''}'')"
  have txt_eq: "join_with '','' (map member_text (m # ms)) @ ''}'' = member_text m @ rest"
    by (simp add: rest_def join_with_Cons)
  have p: "parses k (snd m) (snd kv)" using kv(1) by (simp add: parses_member_def)
  have "parse_value (json_fuel (snd m @ rest)) max_nesting (snd m @ rest) = Some (snd kv, rest)"
    using assms(2) by (intro parses_value [OF p]) (auto simp: json_fuel_def rest_def value_end_def)
  moreover have "skip_ws (snd m @ rest) = snd m @ rest" by (rule parses_skip_ws [OF p])
  moreover have "skip_ws rest = rest" by (simp add: rest_def)
  moreover have "skip_ws (join_with '','' (map member_text ms) @ ''}'')
      = join_with '','' (map member_text ms) @ ''}''" if "ms \<noteq> []"
    using members_head [OF that, of "''}''"] by (metis not_space(1) skip_ws_text)
  ultimately show ?case
    using Cons.IH [OF kv(2)] unfolding txt_eq length_Cons raw_members_loop.simps
    by (simp add: member_text_head scan_body_escape_body unquote_escape_body slice_before_def
        rest_def split: if_splits)
qed simp

lemma struct_members_print:
  assumes "list_all2 (parses_member k) ms kvs" "Suc k \<le> max_nesting"
  shows "struct_members (print_object ms) = Some (map (\<lambda>m. (utf8_sanitize (fst m), snd m)) ms)"
proof -
  let ?s = "join_with '','' (map member_text ms) @ ''}''"
  have "json_parse (print_object ms) = Some (JObj kvs)"
    using parses_json_parse [OF parses_object [OF assms(1)] assms(2)] .
  moreover have "skip_ws ?s = ?s"
    using members_head [of ms "''}''"] by (cases "ms = []") (auto simp: not_space(1))
  moreover have "length kvs = length ms"
    using assms(1) by (simp add: list_all2_lengthD)
  ultimately show ?thesis
    using raw_members_loop_members [OF assms(1)] assms(2)
    by (simp add: struct_members_def print_object_members)
qed

text \<open>The value with the strings that decoding gives back, and the two conditions on printable values.\<close>

fun json_repaired :: "json \<Rightarrow> json" where
  "json_repaired (JStr s) = JStr (utf8_sanitize s)"
| "json_repaired (JArr vs) = JArr (map json_repaired vs)"
| "json_repaired (JObj ms) = JObj (map (\<lambda>(k, v). (utf8_sanitize k, json_repaired v)) ms)"
| "json_repaired v = v"

fun json_depth :: "json \<Rightarrow> nat" where
  "json_depth (JArr vs) = Suc (Max (set (0 # map json_depth vs)))"
| "json_depth (JObj ms) = Suc (Max (set (0 # map (\<lambda>(k, v). json_depth v) ms)))"
| "json_depth v = 0"

fun json_numbers :: "json \<Rightarrow> bool" where
  "json_numbers (JNum t) = number_literal t"
| "json_numbers (JArr vs) = list_all json_numbers vs"
| "json_numbers (JObj ms) = list_all (\<lambda>(k, v). json_numbers v) ms"
| "json_numbers v = True"

lemma print_json_object:
  "print_json (JObj ms) = print_object (map (\<lambda>(k, v). (k, print_json v)) ms)"
  by (simp add: print_object_def case_prod_unfold comp_def)

lemma parses_print: "json_numbers v \<Longrightarrow> parses (json_depth v) (print_json v) (json_repaired v)"
proof (induction v)
  case (JArr vs)
  let ?k = "Max (set (0 # map json_depth vs))"
  have "parses ?k (print_json v) (json_repaired v)" if "v \<in> set vs" for v
    using that JArr by (auto intro!: parses_mono [OF JArr.IH] Max_ge simp: list_all_iff)
  then have "list_all2 (parses ?k) (map print_json vs) (map json_repaired vs)"
    by (simp add: list_all2_conv_all_nth)
  then show ?case using parses_array by fastforce
next
  case (JObj ms)
  let ?k = "Max (set (0 # map (\<lambda>(k, v). json_depth v) ms))"
  have "parses ?k (print_json v) (json_repaired v)" if "(k, v) \<in> set ms" for k v
  proof (rule parses_mono)
    show "parses (json_depth v) (print_json v) (json_repaired v)"
      using that JObj by (intro JObj.IH [of "(k, v)"]) (auto simp: list_all_iff)
    show "json_depth v \<le> ?k"
      using that by (intro Max_ge) (auto simp: image_iff intro!: bexI [of _ "(k, v)"])
  qed
  then have "list_all2 (parses_member ?k) (map (\<lambda>(k, v). (k, print_json v)) ms)
      (map (\<lambda>(k, v). (utf8_sanitize k, json_repaired v)) ms)"
    by (auto simp: list_all2_conv_all_nth parses_member_def case_prod_unfold)
      (metis nth_mem prod.collapse)
  from parses_object [OF this] show ?case
    unfolding print_json_object by simp
qed (auto simp: parses_literals parses_string parses_number)

lemma json_parse_print:
  assumes "json_numbers v" "json_depth v \<le> max_nesting"
  shows "json_parse (print_json v) = Some (json_repaired v)"
  using parses_json_parse [OF parses_print [OF assms(1)] assms(2)] .

section \<open>Decoding printed fields\<close>

lemma show_nat_lead: "0 < n \<Longrightarrow> hd (show_nat n) \<noteq> CHR ''0''"
proof (induction n rule: show_nat.induct)
  case (1 n)
  show ?case
  proof (cases "n < 10")
    case True
    with 1(2) have "byte (digit_char n) \<noteq> byte (CHR ''0'')"
      by (simp add: digit_char_def byte_def)
    with True show ?thesis by (subst show_nat.simps) auto
  next
    case False
    with 1 show ?thesis by (subst show_nat.simps) (simp add: hd_append)
  qed
qed

lemma scan_integer_digits:
  assumes "list_all is_digit s" "s \<noteq> []" "hd s = CHR ''0'' \<Longrightarrow> s = ''0''"
  shows "scan_integer s = Some (s, [])"
proof (cases s)
  case (Cons c cs)
  with assms(1) have cs: "takeWhile is_digit cs = cs" "dropWhile is_digit cs = []"
    by (auto simp: takeWhile_eq_all_conv dropWhile_eq_Nil_conv list_all_iff)
  with Cons assms show ?thesis by (auto simp: scan_integer_def)
qed (use assms in simp)

lemma scan_integer_show_nat: "scan_integer (show_nat n) = Some (show_nat n, [])"
proof (rule scan_integer_digits)
  have "show_nat 0 = ''0''" by (subst show_nat.simps) (simp add: digit_char_def char_of_eq byte_def)
  then show "hd (show_nat n) = CHR ''0'' \<Longrightarrow> show_nat n = ''0''"
    using show_nat_lead [of n] by (cases "n = 0") auto
qed (simp_all add: show_nat_digits)

lemma number_literal_show_int: "number_literal (show_int i)"
proof -
  obtain c cs where c: "show_nat (nat i) = c # cs" "c \<noteq> CHR ''-''"
    using show_nat_head by blast
  then have "takeWhile (\<lambda>c. c = CHR ''-'') (take 1 (show_nat (nat i))) = []" by simp
  then show ?thesis
    by (simp add: number_literal_def scan_number_def show_int_def scan_integer_show_nat
        scan_fraction_def scan_exponent_def)
qed

lemma dec_int64_show:
  assumes "min_int64 \<le> i" "i \<le> max_int64"
  shows "dec_int64 (show_int i) = Some i"
proof -
  have "take 1 (show_int i) \<noteq> ''+''"
    using show_nat_head [of "nat i"] by (auto simp: show_int_def)
  with assms show ?thesis by (simp add: dec_int64_def parse_show_int)
qed

lemma parses_show_int: "parses k (show_int i) (JNum (show_int i))"
  by (rule parses_number) (rule number_literal_show_int)

lemma quote_not_null [simp]: "quote_json html s \<noteq> ''null''"
  by (simp add: quote_json_def dquote_def)

lemma show_int_not_null [simp]: "show_int i \<noteq> ''null''"
proof (rule number_literal_head [OF number_literal_show_int [of i]])
  fix c cs
  assume "show_int i = c # cs" "c = CHR ''-'' \<or> is_digit c"
  moreover have "\<not> is_digit (CHR ''n'')" by (simp add: is_digit_def)
  ultimately show ?thesis by auto
qed

end
