(* ===== verification/Events.thy ===== *)
theory Events
  imports Json_Roundtrip
begin

text \<open>
  The event record of the log (\<open>contracts/gen/events.gen.go\<close>), its kinds, its JSON encoding and the
  payload of \<open>session/fork\<close>. The payload of an event is kept as its raw bytes, as the code does; a
  sequence number or time stamp is only stored and compared, a usage count is a 64-bit word.
\<close>

record event =
  ev_seq :: int
  ev_ts :: int
  ev_trace_id :: string
  ev_span_id :: string
  ev_parent_span_id :: "string option"
  ev_kind :: string
  ev_actor :: string
  ev_payload :: string
  ev_raw :: "string option"
  ev_usage_in :: "i64 option"
  ev_usage_out :: "i64 option"

definition kind_session_start :: string where "kind_session_start = ''session/start''"
definition kind_session_fork :: string where "kind_session_fork = ''session/fork''"
definition kind_session_end :: string where "kind_session_end = ''session/end''"
definition kind_turn_start :: string where "kind_turn_start = ''turn/start''"
definition kind_turn_end :: string where "kind_turn_end = ''turn/end''"
definition kind_step_start :: string where "kind_step_start = ''step/start''"
definition kind_step_end :: string where "kind_step_end = ''step/end''"
definition kind_user_message :: string where "kind_user_message = ''user/message''"
definition kind_assistant_message :: string where "kind_assistant_message = ''assistant/message''"
definition kind_tool_call :: string where "kind_tool_call = ''tool/call''"
definition kind_tool_result :: string where "kind_tool_result = ''tool/result''"
definition kind_hook_verdict :: string where "kind_hook_verdict = ''hook/verdict''"
definition kind_subagent_spawn :: string where "kind_subagent_spawn = ''subagent/spawn''"
definition kind_subagent_tool_call :: string where "kind_subagent_tool_call = ''subagent/tool_call''"
definition kind_subagent_approval_request :: string where
  "kind_subagent_approval_request = ''subagent/approval_request''"
definition kind_subagent_usage :: string where "kind_subagent_usage = ''subagent/usage''"
definition kind_subagent_done :: string where "kind_subagent_done = ''subagent/done''"
definition kind_collector_fs_changed :: string where
  "kind_collector_fs_changed = ''collector/fs_changed''"
definition kind_collector_egress :: string where "kind_collector_egress = ''collector/egress''"
definition kind_policy_decision :: string where "kind_policy_decision = ''policy/decision''"

lemmas kind_defs =
  kind_session_start_def kind_session_fork_def kind_session_end_def kind_turn_start_def
  kind_turn_end_def kind_step_start_def kind_step_end_def kind_user_message_def
  kind_assistant_message_def kind_tool_call_def kind_tool_result_def kind_hook_verdict_def
  kind_subagent_spawn_def kind_subagent_tool_call_def kind_subagent_approval_request_def
  kind_subagent_usage_def kind_subagent_done_def kind_collector_fs_changed_def
  kind_collector_egress_def kind_policy_decision_def

definition opt_field :: "string \<Rightarrow> string option \<Rightarrow> (string \<times> string) list" where
  "opt_field name v = (case v of None \<Rightarrow> [] | Some t \<Rightarrow> [(name, t)])"

text \<open>\<open>json.Marshal\<close> of an event: the fields in struct order, \<open>None\<close> for an invalid payload.\<close>

definition event_fields :: "event \<Rightarrow> string \<Rightarrow> (string \<times> string) list" where
  "event_fields e payload =
     [(''actor'', quote_json True (ev_actor e)),
      (''kind'', quote_json True (ev_kind e))] @
     opt_field ''parent_span_id'' (map_option (quote_json True) (ev_parent_span_id e)) @
     [(''payload'', payload)] @
     opt_field ''raw'' (map_option (quote_json True) (ev_raw e)) @
     [(''seq'', show_int (ev_seq e)),
      (''span_id'', quote_json True (ev_span_id e)),
      (''trace_id'', quote_json True (ev_trace_id e)),
      (''ts'', show_int (ev_ts e))] @
     opt_field ''usage_in'' (map_option (\<lambda>w. show_int (sint w)) (ev_usage_in e)) @
     opt_field ''usage_out'' (map_option (\<lambda>w. show_int (sint w)) (ev_usage_out e))"

definition marshal_event :: "event \<Rightarrow> string option" where
  "marshal_event e =
     map_option (\<lambda>payload. print_object (event_fields e payload)) (marshal_raw (ev_payload e))"

section \<open>The payload of a fork\<close>

record fork_payload =
  fp_origin_seq :: int
  fp_origin_trace_id :: string

definition marshal_fork :: "fork_payload \<Rightarrow> string" where
  "marshal_fork p = print_object
     [(''origin_seq'', show_int (fp_origin_seq p)),
      (''origin_trace_id'', quote_json True (fp_origin_trace_id p))]"

definition fork_fields :: "string list" where
  "fork_fields = [''origin_seq'', ''origin_trace_id'']"

definition unmarshal_fork :: "string \<Rightarrow> fork_payload option" where
  "unmarshal_fork s =
     Option.bind (struct_members s) (\<lambda>ms.
     Option.bind (decode_field dec_int64 0 (field_raws fork_fields ''origin_seq'' ms)) (\<lambda>q.
     Option.bind (decode_field dec_string [] (field_raws fork_fields ''origin_trace_id'' ms)) (\<lambda>t.
       Some \<lparr> fp_origin_seq = q, fp_origin_trace_id = t \<rparr>)))"

section \<open>Lemmas\<close>

lemma utf8_sanitize_ascii_id: "is_ascii s \<Longrightarrow> utf8_sanitize s = s"
  by (simp add: utf8_sanitize_valid is_ascii_utf8_valid)

lemma fork_names_ascii: "list_all is_ascii fork_fields"
  by (simp add: fork_fields_def is_ascii_def)

lemma unmarshal_marshal_fork:
  assumes "min_int64 \<le> fp_origin_seq p" "fp_origin_seq p \<le> max_int64"
  shows "unmarshal_fork (marshal_fork p) =
    Some (p\<lparr>fp_origin_trace_id := utf8_sanitize (fp_origin_trace_id p)\<rparr>)"
proof -
  let ?ms = "[(''origin_seq'', show_int (fp_origin_seq p)),
    (''origin_trace_id'', quote_json True (fp_origin_trace_id p))]"
  have "list_all2 (parses_member 0) ?ms
    [(utf8_sanitize ''origin_seq'', JNum (show_int (fp_origin_seq p))),
     (utf8_sanitize ''origin_trace_id'', JStr (utf8_sanitize (fp_origin_trace_id p)))]"
    by (simp add: parses_member_def parses_show_int parses_string)
  then have "struct_members (print_object ?ms) = Some (map (\<lambda>m. (utf8_sanitize (fst m), snd m)) ?ms)"
    by (rule struct_members_print) (simp add: max_nesting_def)
  moreover have "utf8_sanitize ''origin_seq'' = ''origin_seq''"
    "utf8_sanitize ''origin_trace_id'' = ''origin_trace_id''"
    by (simp_all add: utf8_sanitize_ascii_id is_ascii_def)
  ultimately have ms: "struct_members (marshal_fork p) = Some ?ms"
    by (simp add: marshal_fork_def)
  have "field_raws fork_fields ''origin_seq'' ?ms = [show_int (fp_origin_seq p)]"
    "field_raws fork_fields ''origin_trace_id'' ?ms = [quote_json True (fp_origin_trace_id p)]"
    by (simp_all add: field_raws_def fork_fields_def)
  with assms show ?thesis
    by (simp add: unmarshal_fork_def ms dec_int64_show dec_string_quote)
qed

lemma parses_members_exist:
  assumes "\<And>m. m \<in> set ms \<Longrightarrow> \<exists>v. parses k (snd m) v"
  shows "\<exists>kvs. list_all2 (parses_member k) ms kvs"
  using assms
proof (induction ms)
  case (Cons m ms)
  obtain v where "parses k (snd m) v" using Cons.prems [of m] by auto
  moreover obtain kvs where "list_all2 (parses_member k) ms kvs" using Cons by (meson list.set_intros(2))
  ultimately have "list_all2 (parses_member k) (m # ms) ((utf8_sanitize (fst m), v) # kvs)"
    by (simp add: parses_member_def)
  then show ?case by blast
qed auto

lemma print_fields_members:
  assumes "\<And>m. m \<in> set ms \<Longrightarrow> \<exists>v. parses k (snd m) v" "list_all (\<lambda>m. is_ascii (fst m)) ms"
    and "Suc k \<le> max_nesting"
  shows "struct_members (print_object ms) = Some ms"
proof -
  obtain kvs where "list_all2 (parses_member k) ms kvs" using parses_members_exist [OF assms(1)] by blast
  then have "struct_members (print_object ms) = Some (map (\<lambda>m. (utf8_sanitize (fst m), snd m)) ms)"
    using assms(3) by (rule struct_members_print)
  moreover have "map (\<lambda>m. (utf8_sanitize (fst m), snd m)) ms = ms"
    using assms(2) by (intro map_idI) (auto simp: list_all_iff utf8_sanitize_ascii_id)
  ultimately show ?thesis by simp
qed

lemma event_members:
  assumes "parses k payload v" "Suc k \<le> max_nesting"
  shows "struct_members (print_object (event_fields e payload)) = Some (event_fields e payload)"
proof (rule print_fields_members [OF _ _ assms(2)])
  fix m
  assume "m \<in> set (event_fields e payload)"
  moreover have "\<exists>v. parses k (show_int i) v" "\<exists>v. parses k (quote_json True s) v" for i s
    using parses_show_int parses_string by blast+
  ultimately show "\<exists>v. parses k (snd m) v"
    using assms(1) by (auto simp: event_fields_def opt_field_def split: option.splits)
next
  show "list_all (\<lambda>m. is_ascii (fst m)) (event_fields e payload)"
    by (auto simp: event_fields_def opt_field_def is_ascii_def split: option.splits)
qed

lemma empty_object_parses: "parses 1 ''{}'' (JObj [])"
  using parses_object [of 0 "[]" "[]"] by (simp add: print_object_def)

lemma marshal_raw_empty_object: "marshal_raw ''{}'' = Some ''{}''"
  using parses_json_parse [OF empty_object_parses]
  by (simp add: marshal_raw_def json_valid_def max_nesting_def json_space_def dquote_def)

end
