(* ===== verification/Redaction.thy ===== *)
theory Redaction
  imports Events
begin

text \<open>
  The redaction pass (\<open>core/logd/redact.go\<close>).

  A compiled pattern is its effect under \<open>ReplaceAll\<close> with the marker. The default patterns are
  given as regular expressions with a backtracking matcher that lists the remainders in the order
  of preference, which is Go's leftmost-first rule. A pattern from the configuration is compiled by
  the argument \<open>compile_re\<close>, which is \<open>None\<close> on a syntax error. Go iterates over maps in an unspecified
  order: the argument \<open>ord\<close> is the order of one iteration.
\<close>

definition redacted_marker :: string where
  "redacted_marker = ''[REDACTED]''"

section \<open>Default patterns\<close>

type_synonym byte_class = "(nat \<times> nat) list"

datatype regex =
    Lit string
  | Exactly nat byte_class
  | AtLeast nat byte_class
  | LazyAny
  | Alts "string list"
  | Seq "regex list"

definition in_class :: "byte_class \<Rightarrow> char \<Rightarrow> bool" where
  "in_class cls c = list_ex (\<lambda>(lo, hi). lo \<le> byte c \<and> byte c \<le> hi) cls"

text \<open>The suffixes that a lazy \<open>[\s\S]*?\<close> leaves, the shortest match first.\<close>

function rune_suffixes :: "string \<Rightarrow> string list" where
  "rune_suffixes s = s # (if s = [] then [] else rune_suffixes (drop (max 1 (rune_width s)) s))"
  by pat_completeness auto
termination by (relation "measure length") auto

declare rune_suffixes.simps [simp del]

fun remainders :: "regex \<Rightarrow> string \<Rightarrow> string list" where
  "remainders (Lit l) s = (if prefix l s then [drop (length l) s] else [])"
| "remainders (Exactly n cls) s =
     (if n \<le> length s \<and> list_all (in_class cls) (take n s) then [drop n s] else [])"
| "remainders (AtLeast n cls) s =
     (let m = length (takeWhile (in_class cls) s) in map (\<lambda>k. drop k s) (rev [n..<Suc m]))"
| "remainders LazyAny s = rune_suffixes s"
| "remainders (Alts ls) s = map (\<lambda>l. drop (length l) s) (filter (\<lambda>l. prefix l s) ls)"
| "remainders (Seq []) s = [s]"
| "remainders (Seq (r # rs)) s = concat (map (remainders (Seq rs)) (remainders r s))"

text \<open>\<open>ReplaceAll\<close> of a pattern that never matches the empty string.\<close>

function replace_all :: "(string \<Rightarrow> string option) \<Rightarrow> string \<Rightarrow> string" where
  "replace_all m s =
     (if s = [] then []
      else (case m s of
              Some r \<Rightarrow>
                if length r < length s then redacted_marker @ replace_all m r
                else hd s # replace_all m (tl s)
            | None \<Rightarrow> hd s # replace_all m (tl s)))"
  by pat_completeness auto
termination by (relation "measure (\<lambda>(m, s). length s)") auto

declare replace_all.simps [simp del]

definition first_remainder :: "regex \<Rightarrow> string \<Rightarrow> string option" where
  "first_remainder re s = (case remainders re s of [] \<Rightarrow> None | r # _ \<Rightarrow> Some r)"

definition digits :: byte_class where "digits = [(48, 57)]"

definition uppers :: byte_class where "uppers = [(65, 90)]"

definition alnums :: byte_class where "alnums = [(65, 90), (97, 122), (48, 57)]"

definition under :: byte_class where "under = [(95, 95)]"

definition dash :: byte_class where "dash = [(45, 45)]"

definition pem_label :: byte_class where "pem_label = [(65, 90), (32, 32)]"

definition default_patterns :: "regex list" where
  "default_patterns =
     [Seq [Lit ''AKIA'', Exactly 16 (digits @ uppers)],
      Seq [Lit ''sk-ant-'', AtLeast 10 (alnums @ under @ dash)],
      Seq [Lit ''sk-'', AtLeast 20 (alnums @ under @ dash)],
      Seq [Alts [''ghp'', ''gho'', ''ghu'', ''ghs'', ''ghr''], Lit ''_'', AtLeast 20 alnums],
      Seq [Lit ''github_pat_'', AtLeast 20 (alnums @ under)],
      Seq [Lit ''xox'', Exactly 1 [(98, 98), (97, 97), (112, 112), (114, 114), (115, 115)], Lit ''-'',
           AtLeast 10 (alnums @ dash)],
      Seq [Lit ''-----BEGIN '', AtLeast 0 pem_label, Lit ''PRIVATE KEY-----'', LazyAny,
           Lit ''-----END '', AtLeast 0 pem_label, Lit ''PRIVATE KEY-----''],
      Seq [Lit ''eyJ'', AtLeast 10 (alnums @ under @ dash), Lit ''.eyJ'',
           AtLeast 10 (alnums @ under @ dash), Lit ''.'', AtLeast 10 (alnums @ under @ dash)]]"

section \<open>Literals and the redactor\<close>

definition encoded_form :: "bool \<Rightarrow> string \<Rightarrow> string list" where
  "encoded_form html v =
     (let encoded = trim_suffix (trim_prefix (quote_json html v @ [CHR 0x0A]) [dquote]) [CHR 0x0A] in
      if suffix [dquote] encoded then [trim_suffix encoded [dquote]] else [])"

definition literal_forms :: "string \<Rightarrow> string list" where
  "literal_forms v = filter (\<lambda>x. x \<noteq> []) (v # encoded_form True v @ encoded_form False v)"

definition literal_variants :: "(string list \<Rightarrow> string list) \<Rightarrow> string list \<Rightarrow> string list" where
  "literal_variants ord values =
     sort_key (\<lambda>v. - int (length v))
       (ord (uniq (concat (map literal_forms (filter (\<lambda>v. v \<noteq> []) values)))))"

text \<open>The literal pattern is an alternation in which the longest literals come first.\<close>

definition match_literal :: "string list \<Rightarrow> string \<Rightarrow> string option" where
  "match_literal ls s = map_option (\<lambda>l. drop (length l) s) (find (\<lambda>l. prefix l s) ls)"

definition literal_pass :: "string list \<Rightarrow> (string \<Rightarrow> string) option" where
  "literal_pass ls = (if list_all utf8_valid ls then Some (replace_all (match_literal ls)) else None)"

record redactor =
  rd_passes :: "(string \<Rightarrow> string) list"
  rd_literals :: "string list"
  rd_max_literal :: nat

definition new_redactor ::
    "(string \<Rightarrow> (string \<Rightarrow> string) option) \<Rightarrow> (string list \<Rightarrow> string list) \<Rightarrow> (string list \<Rightarrow> string list)
      \<Rightarrow> string list \<Rightarrow> string list \<Rightarrow> (string, redactor) result" where
  "new_redactor compile_re ord ord' extra literals =
     (let values = literal_variants ord literals;
          pattern = literal_variants ord' literals in
      rbind (if pattern = [] then Inr []
             else (case literal_pass pattern of
                     None \<Rightarrow> Inl ''invalid UTF-8''
                   | Some f \<Rightarrow> Inr [f])) (\<lambda>lit.
      rbind (rmap (\<lambda>p. case compile_re p of None \<Rightarrow> Inl p | Some f \<Rightarrow> Inr f) extra) (\<lambda>ext.
        Inr \<lparr> rd_passes = lit @ map (\<lambda>re. replace_all (first_remainder re)) default_patterns @ ext,
              rd_literals = values,
              rd_max_literal = foldl max 0 (map length values) \<rparr>)))"

definition literal_overlap :: "redactor \<Rightarrow> nat" where
  "literal_overlap r = (if rd_max_literal r < 2 then 0 else rd_max_literal r - 1)"

definition redact_bytes :: "redactor \<Rightarrow> string \<Rightarrow> string" where
  "redact_bytes r b = foldl (\<lambda>b f. f b) b (rd_passes r)"

text \<open>A nil redactor (\<open>None\<close>) leaves its input as it is.\<close>

definition redact_opt :: "redactor option \<Rightarrow> string \<Rightarrow> string" where
  "redact_opt r b = (case r of None \<Rightarrow> b | Some r' \<Rightarrow> redact_bytes r' b)"

definition redact_event :: "redactor \<Rightarrow> event \<Rightarrow> (string, event) result" where
  "redact_event r e =
     (let e' = e\<lparr>ev_payload := redact_bytes r (ev_payload e)\<rparr> in
      case ev_raw e of
        None \<Rightarrow> Inr e'
      | Some raw \<Rightarrow>
          (case b64_decode raw of
             None \<Rightarrow> Inl ''raw base64''
           | Some decoded \<Rightarrow> Inr (e'\<lparr>ev_raw := Some (b64_encode (redact_bytes r decoded))\<rparr>)))"

section \<open>Lemmas: masking\<close>

text \<open>The second text is the first with some non-empty pieces replaced by the marker.\<close>

inductive masked :: "string \<Rightarrow> string \<Rightarrow> bool" where
  masked_Nil: "masked [] []"
| masked_keep: "masked s t \<Longrightarrow> masked (c # s) (c # t)"
| masked_mask: "masked s t \<Longrightarrow> u \<noteq> [] \<Longrightarrow> masked (u @ s) (redacted_marker @ t)"

text \<open>Texts that cannot be confused with a part of the marker.\<close>

definition unmarked :: "string \<Rightarrow> bool" where
  "unmarked w \<longleftrightarrow>
     w \<noteq> [] \<and> CHR ''['' \<notin> set w \<and> CHR '']'' \<notin> set w \<and> \<not> sublist w ''REDACTED''"

lemma replace_all_cases:
  obtains (Nil) "s = []" "replace_all m s = []"
  | (mask) r where "m s = Some r" "length r < length s"
      "replace_all m s = redacted_marker @ replace_all m r"
  | (keep) c cs where "s = c # cs" "\<And>r. m s = Some r \<Longrightarrow> \<not> length r < length s"
      "replace_all m s = c # replace_all m cs"
proof -
  consider "s = []" | r where "m s = Some r" "length r < length s"
    | c cs where "s = c # cs" "\<And>r. m s = Some r \<Longrightarrow> \<not> length r < length s"
    by (cases s; cases "m s"; auto)
  then show ?thesis
  proof cases
    case 1
    then show ?thesis by (intro Nil) (simp_all add: replace_all.simps)
  next
    case (2 r)
    then show ?thesis
      by (intro mask [of r]) (simp_all, subst replace_all.simps, auto)
  next
    case (3 c cs)
    then show ?thesis
      by (intro keep [of c cs]) (simp_all, subst replace_all.simps, auto split: option.splits)
  qed
qed

lemma replace_all_masked:
  assumes "\<And>s r. m s = Some r \<Longrightarrow> suffix r s"
  shows "masked s (replace_all m s)"
proof (induction "length s" arbitrary: s rule: less_induct)
  case less
  show ?case
  proof (cases rule: replace_all_cases [of s m])
    case Nil
    then show ?thesis by (simp add: masked_Nil)
  next
    case (mask r)
    then obtain u where u: "s = u @ r" using assms by (auto simp: suffix_def)
    with mask have "u \<noteq> []" by auto
    with mask less u show ?thesis by (auto intro: masked_mask)
  next
    case (keep c cs)
    with less show ?thesis by (auto intro: masked_keep)
  qed
qed

lemma masked_refl: "masked s s"
  by (induction s) (auto intro: masked.intros)

lemma masked_prefix:
  assumes "masked s t" "CHR ''['' \<notin> set w" "prefix w t"
  shows "prefix w s"
  using assms
proof (induction arbitrary: w)
  case (masked_keep s t c)
  then show ?case by (cases w) auto
next
  case (masked_mask s t u)
  then have "w = []" by (cases w) (auto simp: redacted_marker_def)
  then show ?case by simp
qed simp

lemma sublist_around:
  assumes "c \<notin> set w" "sublist w (a @ c # b)"
  shows "sublist w a \<or> sublist w b"
proof -
  have tail: "sublist w b" if "sublist w (c # b)"
    using that assms(1) by (cases w) (auto simp: sublist_Cons_right)
  have "w2 = []" if "prefix w2 (c # b)" "w = w1 @ w2" for w1 w2
    using that assms(1) by (cases w2) auto
  with assms(2) tail show ?thesis
    by (fastforce simp: sublist_append)
qed

lemma sublist_marker:
  assumes "unmarked w" "sublist w (redacted_marker @ t)"
  shows "sublist w t"
proof -
  have "sublist w ([] @ CHR ''['' # (''REDACTED'' @ CHR '']'' # t))"
    using assms(2) by (simp add: redacted_marker_def)
  moreover have "CHR ''['' \<notin> set w" "CHR '']'' \<notin> set w" "w \<noteq> []" "\<not> sublist w ''REDACTED''"
    using assms(1) by (simp_all add: unmarked_def)
  ultimately have "sublist w (''REDACTED'' @ CHR '']'' # t)"
    using sublist_around [of "CHR ''[''" w "[]" "''REDACTED'' @ CHR '']'' # t"] by simp
  then show ?thesis
    using sublist_around [of "CHR '']''" w "''REDACTED''" t] \<open>CHR '']'' \<notin> set w\<close>
      \<open>\<not> sublist w ''REDACTED''\<close> by blast
qed

lemma masked_sublist:
  assumes "masked s t" "unmarked w" "sublist w t"
  shows "sublist w s"
  using assms
proof (induction)
  case (masked_keep s t c)
  from masked_keep.prems(2) consider "prefix w (c # t)" | "sublist w t"
    by (auto simp: sublist_Cons_right)
  then show ?case
  proof cases
    case 1
    then have "prefix w (c # s)"
      using masked_prefix [OF masked.masked_keep [OF masked_keep.hyps]] masked_keep.prems(1)
      by (auto simp: unmarked_def)
    then show ?thesis by (rule prefix_imp_sublist)
  next
    case 2
    with masked_keep show ?thesis by (simp add: sublist_Cons_right)
  qed
next
  case (masked_mask s t u)
  from masked_mask.prems have "sublist w t" by (rule sublist_marker)
  then have "sublist w s" by (rule masked_mask.IH [OF masked_mask.prems(1)])
  then show ?case by (simp add: sublist_append)
qed simp

lemma match_literal_suffix: "match_literal ls s = Some r \<Longrightarrow> suffix r s"
  by (auto simp: match_literal_def find_Some_iff suffix_drop)

lemma literal_pass_removes:
  assumes "l \<in> set ls" "unmarked l" "[] \<notin> set ls"
  shows "\<not> sublist l (replace_all (match_literal ls) s)"
proof (induction "length s" arbitrary: s rule: less_induct)
  case less
  have m: "masked s (replace_all (match_literal ls) s)"
    by (rule replace_all_masked) (rule match_literal_suffix)
  show ?case
  proof (cases rule: replace_all_cases [of s "match_literal ls"])
    case Nil
    with assms(2) show ?thesis by (auto simp: unmarked_def)
  next
    case (mask r)
    have "\<not> sublist l (replace_all (match_literal ls) r)" using mask less by simp
    with mask assms(2) show ?thesis using sublist_marker by auto
  next
    case (keep c cs)
    have "\<not> prefix l s"
    proof
      assume "prefix l s"
      then have "find (\<lambda>l. prefix l s) ls \<noteq> None"
        using assms(1) by (auto simp: find_None_iff)
      then obtain l' where l': "find (\<lambda>l. prefix l s) ls = Some l'" by auto
      then have "l' \<in> set ls" by (auto simp: find_Some_iff)
      then have "l' \<noteq> []" using assms(3) by blast
      moreover have "match_literal ls s = Some (drop (length l') s)"
        using l' by (simp add: match_literal_def)
      moreover have "\<not> length (drop (length l') s) < length s" if "match_literal ls s = Some (drop (length l') s)"
        using that by (rule keep(2))
      ultimately show False using keep(1) by simp
    qed
    then have "\<not> prefix l (c # replace_all (match_literal ls) cs)"
      using masked_prefix [OF m] keep assms(2) by (auto simp: unmarked_def)
    moreover have "\<not> sublist l (replace_all (match_literal ls) cs)" using keep less by simp
    ultimately show ?thesis using keep by (simp add: sublist_Cons_right)
  qed
qed

lemma trim_suffix_append: "trim_suffix (s @ suf) suf = s"
proof -
  have "suffix suf (s @ suf)" by (rule suffixI) simp
  then show ?thesis by (simp add: trim_suffix_def)
qed

lemma encoded_form_eq: "encoded_form html v = [escape_body html v]"
proof -
  have "trim_prefix (quote_json html v @ [CHR 0x0A]) [dquote] = (escape_body html v @ [dquote]) @ [CHR 0x0A]"
    by (simp add: quote_json_def trim_prefix_def)
  then have "trim_suffix (trim_prefix (quote_json html v @ [CHR 0x0A]) [dquote]) [CHR 0x0A]
      = escape_body html v @ [dquote]"
    by (simp only: trim_suffix_append)
  moreover have "suffix [dquote] (escape_body html v @ [dquote])" by (rule suffixI) simp
  ultimately show ?thesis
    by (simp only: encoded_form_def Let_def trim_suffix_append if_True)
qed

text \<open>What an iteration over a map and a compiled pattern are relied on for.\<close>

definition map_order :: "(string list \<Rightarrow> string list) \<Rightarrow> bool" where
  "map_order ord \<longleftrightarrow> (\<forall>xs. mset (ord xs) = mset xs)"

definition masking_patterns :: "(string \<Rightarrow> (string \<Rightarrow> string) option) \<Rightarrow> bool" where
  "masking_patterns compile_re \<longleftrightarrow> (\<forall>p f s. compile_re p = Some f \<longrightarrow> masked s (f s))"

lemma set_literal_variants:
  assumes "map_order ord"
  shows "set (literal_variants ord values) = (\<Union>v\<in>set values - {[]}. set (literal_forms v))"
proof -
  have "set (ord xs) = set xs" for xs
    using assms unfolding map_order_def by (metis mset_eq_setD)
  then show ?thesis by (auto simp: literal_variants_def)
qed

lemma remainders_suffix: "r \<in> set (remainders re s) \<Longrightarrow> suffix r s"
proof (induction re s arbitrary: r rule: remainders.induct)
  case (4 s)
  have "r \<in> set (rune_suffixes s) \<Longrightarrow> suffix r s" for r
  proof (induction s rule: rune_suffixes.induct)
    case (1 s)
    from 1(2) show ?case
      by (subst (asm) rune_suffixes.simps)
        (auto split: if_splits dest!: 1(1) intro: suffix_order.trans suffix_drop)
  qed
  with 4 show ?case by simp
next
  case (7 re rs s)
  from 7(3) obtain q where q: "q \<in> set (remainders re s)" "r \<in> set (remainders (Seq rs) q)" by auto
  from 7(2) [OF q] 7(1) [OF q(1)] show ?case by (rule suffix_order.trans)
qed (auto simp: suffix_drop Let_def split: if_splits)

lemma default_pass_masked: "masked s (replace_all (first_remainder re) s)"
proof (rule replace_all_masked)
  fix s r
  assume "first_remainder re s = Some r"
  then have "r \<in> set (remainders re s)"
    by (auto simp: first_remainder_def split: list.splits)
  then show "suffix r s" by (rule remainders_suffix)
qed

lemma foldl_masked_absent:
  assumes "\<And>f s. f \<in> set fs \<Longrightarrow> masked s (f s)" "unmarked w" "\<not> sublist w b"
  shows "\<not> sublist w (foldl (\<lambda>b f. f b) b fs)"
  using assms
proof (induction fs arbitrary: b)
  case (Cons f fs)
  have "\<not> sublist w (f b)"
    using Cons.prems masked_sublist [of b "f b" w] by auto
  with Cons show ?case by simp
qed simp

lemma new_redactor_passes:
  assumes "new_redactor compile_re ord ord' extra literals = Inr r"
    and "masking_patterns compile_re"
  shows "\<exists>fs. (\<forall>f\<in>set fs. \<forall>s. masked s (f s)) \<and>
    (rd_passes r = fs \<or> rd_passes r = replace_all (match_literal (literal_variants ord' literals)) # fs)
    \<and> (literal_variants ord' literals \<noteq> [] \<longrightarrow>
       rd_passes r = replace_all (match_literal (literal_variants ord' literals)) # fs)"
proof -
  from assms(1) obtain lit ext where
    lit: "(if literal_variants ord' literals = [] then Inr []
           else (case literal_pass (literal_variants ord' literals) of
                   None \<Rightarrow> Inl ''invalid UTF-8'' | Some f \<Rightarrow> Inr [f])) = Inr lit"
    and ext: "rmap (\<lambda>p. case compile_re p of None \<Rightarrow> Inl p | Some f \<Rightarrow> Inr f) extra = Inr ext"
    and r: "rd_passes r = lit @ map (\<lambda>re. replace_all (first_remainder re)) default_patterns @ ext"
    by (auto simp: new_redactor_def Let_def rbind_Inr_iff)
  have "masked s (f s)" if "f \<in> set ext" for f s
    using rmap_Inr_set [OF ext that] assms(2)
    by (auto simp: masking_patterns_def split: option.splits)
  then have "\<forall>f\<in>set (map (\<lambda>re. replace_all (first_remainder re)) default_patterns @ ext). \<forall>s. masked s (f s)"
    using default_pass_masked by auto
  moreover from lit have "lit = [] \<and> literal_variants ord' literals = [] \<or>
      lit = [replace_all (match_literal (literal_variants ord' literals))]"
    by (auto simp: literal_pass_def split: if_splits option.splits)
  ultimately show ?thesis
    using r by (intro exI [of _ "map (\<lambda>re. replace_all (first_remainder re)) default_patterns @ ext"]) auto
qed

lemma redact_bytes_removes:
  assumes "new_redactor compile_re ord ord' extra literals = Inr r"
    and "masking_patterns compile_re" "map_order ord'"
    and "v \<in> set literals" "v \<noteq> []" "w \<in> set (literal_forms v)" "unmarked w"
  shows "\<not> sublist w (redact_bytes r b)"
proof -
  let ?ls = "literal_variants ord' literals"
  have w: "w \<in> set ?ls" and ne: "[] \<notin> set ?ls"
    using assms(3-6) by (auto simp: set_literal_variants literal_forms_def)
  obtain fs where fs: "\<forall>f\<in>set fs. \<forall>s. masked s (f s)"
    "rd_passes r = replace_all (match_literal ?ls) # fs"
    using new_redactor_passes [OF assms(1,2)] w by auto
  have "\<not> sublist w (replace_all (match_literal ?ls) b)"
    by (rule literal_pass_removes [OF w assms(7) ne])
  with fs show ?thesis
    by (simp add: redact_bytes_def foldl_masked_absent [OF _ assms(7)])
qed

lemma replace_all_id:
  assumes "\<And>t. suffix t s \<Longrightarrow> t \<noteq> [] \<Longrightarrow> m t = None"
  shows "replace_all m s = s"
  using assms
proof (induction s)
  case (Cons c s)
  then have "m (c # s) = None" by simp
  moreover have "replace_all m s = s" using Cons by (auto simp: suffix_Cons)
  ultimately show ?case by (subst replace_all.simps) simp
qed (simp add: replace_all.simps)

section \<open>Concrete input\<close>

definition no_extra :: "string \<Rightarrow> (string \<Rightarrow> string) option" where
  "no_extra p = None"

definition sample_event :: event where
  "sample_event =
     \<lparr> ev_seq = 1, ev_ts = 0, ev_trace_id = ''t'', ev_span_id = ''s'', ev_parent_span_id = None,
       ev_kind = kind_user_message, ev_actor = ''parent'', ev_payload = ''xabay'', ev_raw = Some ''YWJh'',
       ev_usage_in = None, ev_usage_out = None \<rparr>"

lemma escape_aba: "escape_body html ''aba'' = ''aba''"
  by (simp add: escape_body_ascii escape_ascii_def byte_def html_char_def dquote_def backslash_def)

lemma literal_variants_aba: "literal_variants id [''aba''] = [''aba'']"
  by (simp add: literal_variants_def literal_forms_def encoded_form_eq escape_aba uniq_def)

definition aba_redactor :: redactor where
  "aba_redactor =
     \<lparr> rd_passes = replace_all (match_literal [''aba'']) #
         map (\<lambda>re. replace_all (first_remainder re)) default_patterns,
       rd_literals = [''aba''], rd_max_literal = 3 \<rparr>"

lemma aba_redactor_new: "new_redactor no_extra id id [] [''aba''] = Inr aba_redactor"
proof -
  have "list_all utf8_valid [''aba'']" by (simp add: is_ascii_utf8_valid is_ascii_def)
  then show ?thesis
    by (simp add: new_redactor_def literal_variants_aba literal_pass_def aba_redactor_def Let_def)
qed

lemma no_extra_masking: "masking_patterns no_extra"
  by (simp add: masking_patterns_def no_extra_def)

lemma id_map_order: "map_order id"
  by (simp add: map_order_def)

lemma aba_form: "''aba'' \<in> set (literal_forms ''aba'')" "unmarked ''aba''"
  by (simp_all add: literal_forms_def unmarked_def sublist_code)

section \<open>Properties\<close>



end
