(* ===== verification/Redacting_Writer.thy ===== *)
theory Redacting_Writer
  imports Redaction
begin

text \<open>
  The line-buffering writer that applies the redactor to process output
  (\<open>core/logd/redacting_writer.go\<close>): \<open>Write\<close>, \<open>flushOversized\<close> and \<open>Flush\<close>, over any destination
  with a fallible write.
\<close>

section \<open>The redacting writer\<close>

definition max_buffer :: nat where
  "max_buffer = 65536"

text \<open>
  The destination is any state with a fallible write; \<open>rw_nil\<close> is a nil destination, which drops its
  input.
\<close>

type_synonym 'd sink = "'d \<Rightarrow> string \<Rightarrow> (string, 'd) result"

record 'd redacting_writer =
  rw_nil :: bool
  rw_redactor :: "redactor option"
  rw_buf :: string
  rw_dst :: 'd

definition newline :: char where "newline = CHR 0x0A"

function drain_lines ::
    "'d sink \<Rightarrow> redactor option \<Rightarrow> string \<Rightarrow> 'd \<Rightarrow> (string, unit) result \<times> string \<times> 'd" where
  "drain_lines wr r buf d =
     (if newline \<notin> set buf then (Inr (), buf, d)
      else (let line = takeWhile (\<lambda>c. c \<noteq> newline) buf @ [newline];
                rest = drop (length line) buf in
            case wr d (redact_opt r line) of
              Inl e \<Rightarrow> (Inl e, rest, d)
            | Inr d' \<Rightarrow> drain_lines wr r rest d'))"
  by pat_completeness auto
termination
proof (relation "measure (\<lambda>(wr, r, buf, d). length buf)", goal_cases)
  case (2 wr r buf d)
  then show ?case by (cases buf) auto
qed simp

declare drain_lines.simps [simp del]

fun index_of :: "string \<Rightarrow> string \<Rightarrow> nat option" where
  "index_of sub [] = (if sub = [] then Some 0 else None)"
| "index_of sub (c # s) = (if prefix sub (c # s) then Some 0 else map_option Suc (index_of sub s))"

definition index_from :: "string \<Rightarrow> string \<Rightarrow> nat \<Rightarrow> nat option" where
  "index_from sub data from = map_option (\<lambda>i. from + i) (index_of sub (drop from data))"

definition straddle_step :: "nat \<Rightarrow> nat \<Rightarrow> nat \<Rightarrow> nat" where
  "straddle_step len consume at = (if at < consume \<and> consume < at + len then at else consume)"

lemma index_from_ge: "index_from sub data from = Some at \<Longrightarrow> from \<le> at"
  by (auto simp: index_from_def)

text \<open>The inner loop of \<open>flushOversized\<close> over the occurrences of one literal.\<close>

function shrink_literal :: "string \<Rightarrow> string \<Rightarrow> nat \<Rightarrow> nat \<Rightarrow> nat" where
  "shrink_literal lit data from consume =
     (if from + length lit \<le> length data then
        (case index_from lit data from of
           None \<Rightarrow> consume
         | Some at \<Rightarrow>
             shrink_literal lit data (at + 1) (straddle_step (length lit) consume at))
      else consume)"
  by pat_completeness auto
termination
proof (relation "measure (\<lambda>(lit, data, from, consume). Suc (length data) - from)", goal_cases)
  case (2 lit data i consume at)
  then show ?case using index_from_ge [of lit data i at] by auto
qed simp

declare shrink_literal.simps [simp del]

definition safe_boundary :: "redactor option \<Rightarrow> string \<Rightarrow> nat \<Rightarrow> nat" where
  "safe_boundary r data consume =
     (case r of
        None \<Rightarrow> consume
      | Some r' \<Rightarrow> foldl (\<lambda>c lit. shrink_literal lit data 0 c) consume (rd_literals r'))"

definition flush_oversized ::
    "'d sink \<Rightarrow> redactor option \<Rightarrow> string \<Rightarrow> 'd \<Rightarrow> (string, unit) result \<times> string \<times> 'd" where
  "flush_oversized wr r buf d =
     (let overlap = (case r of None \<Rightarrow> 0 | Some r' \<Rightarrow> literal_overlap r') in
      if length buf \<le> max_buffer \<or> length buf \<le> overlap then (Inr (), buf, d)
      else (let consume = safe_boundary r buf (length buf - overlap) in
            if consume = 0 then (Inr (), buf, d)
            else (case wr d (redact_opt r (take consume buf)) of
                    Inl e \<Rightarrow> (Inl e, drop consume buf, d)
                  | Inr d' \<Rightarrow> (Inr (), drop consume buf, d'))))"

definition rw_write ::
    "'d sink \<Rightarrow> 'd redacting_writer \<Rightarrow> string \<Rightarrow> (string, nat) result \<times> 'd redacting_writer" where
  "rw_write wr w p =
     (if rw_nil w then (Inr (length p), w)
      else (case drain_lines wr (rw_redactor w) (rw_buf w @ p) (rw_dst w) of
              (Inl e, buf, d) \<Rightarrow> (Inl e, w\<lparr>rw_buf := buf, rw_dst := d\<rparr>)
            | (Inr _, buf, d) \<Rightarrow>
                (case flush_oversized wr (rw_redactor w) buf d of
                   (Inl e, buf', d') \<Rightarrow> (Inl e, w\<lparr>rw_buf := buf', rw_dst := d'\<rparr>)
                 | (Inr _, buf', d') \<Rightarrow> (Inr (length p), w\<lparr>rw_buf := buf', rw_dst := d'\<rparr>))))"

definition rw_flush ::
    "'d sink \<Rightarrow> 'd redacting_writer \<Rightarrow> (string, unit) result \<times> 'd redacting_writer" where
  "rw_flush wr w =
     (if rw_nil w \<or> rw_buf w = [] then (Inr (), w)
      else (case wr (rw_dst w) (redact_opt (rw_redactor w) (rw_buf w)) of
              Inl e \<Rightarrow> (Inl e, w\<lparr>rw_buf := []\<rparr>)
            | Inr d \<Rightarrow> (Inr (), w\<lparr>rw_buf := [], rw_dst := d\<rparr>)))"

section \<open>Lemmas: lines and boundaries\<close>

text \<open>The complete lines of a text and the unterminated rest.\<close>

function line_split :: "string \<Rightarrow> string list \<times> string" where
  "line_split s =
     (if newline \<notin> set s then ([], s)
      else (let line = takeWhile (\<lambda>c. c \<noteq> newline) s @ [newline];
                (ls, rest) = line_split (drop (length line) s) in
            (line # ls, rest)))"
  by pat_completeness auto
termination
proof (relation "measure length", goal_cases)
  case (2 s)
  then show ?case by (cases s) auto
qed simp

declare line_split.simps [simp del]

definition lines_of :: "string \<Rightarrow> string list" where
  "lines_of s = fst (line_split s) @ (if snd (line_split s) = [] then [] else [snd (line_split s)])"

text \<open>A destination that stores what is written to it.\<close>

definition collect :: "string sink" where
  "collect d b = Inr (d @ b)"

lemma line_split_partial: "newline \<notin> set s \<Longrightarrow> line_split s = ([], s)"
  by (subst line_split.simps) simp

lemma takeWhile_line: "x \<notin> set l \<Longrightarrow> takeWhile (\<lambda>c. c \<noteq> x) (l @ x # s) = l"
  by (induction l) auto

lemma line_split_line:
  "newline \<notin> set l \<Longrightarrow> line_split (l @ newline # s) =
     ((l @ [newline]) # fst (line_split s), snd (line_split s))"
proof -
  assume "newline \<notin> set l"
  then have "takeWhile (\<lambda>c. c \<noteq> newline) (l @ newline # s) = l"
    by (rule takeWhile_line)
  then show ?thesis
    by (subst line_split.simps) (simp add: case_prod_unfold Let_def)
qed

lemma split_first_newline:
  assumes "newline \<in> set s"
  obtains l t where "s = l @ newline # t" "newline \<notin> set l"
  using split_list_first [OF assms] by blast

lemma line_split_append:
  "line_split (s @ t) =
     (fst (line_split s) @ fst (line_split (snd (line_split s) @ t)), snd (line_split (snd (line_split s) @ t)))"
proof (induction "length s" arbitrary: s rule: less_induct)
  case less
  show ?case
  proof (cases "newline \<in> set s")
    case True
    then obtain l u where s: "s = l @ newline # u" "newline \<notin> set l" by (rule split_first_newline)
    then have "line_split (u @ t) = (fst (line_split u) @ fst (line_split (snd (line_split u) @ t)),
        snd (line_split (snd (line_split u) @ t)))"
      by (intro less) simp
    with s show ?thesis by (simp add: line_split_line)
  qed (simp add: line_split_partial)
qed

lemma drain_lines_collect:
  "drain_lines collect r buf d =
     (Inr (), snd (line_split buf), d @ concat (map (redact_opt r) (fst (line_split buf))))"
proof (induction "length buf" arbitrary: buf d rule: less_induct)
  case less
  show ?case
  proof (cases "newline \<in> set buf")
    case True
    then obtain l t where s: "buf = l @ newline # t" "newline \<notin> set l" by (rule split_first_newline)
    have "drain_lines collect r buf d = drain_lines collect r t (d @ redact_opt r (l @ [newline]))"
      using s(2) by (subst drain_lines.simps) (simp add: s(1) collect_def takeWhile_line)
    also have "\<dots> = (Inr (), snd (line_split t),
        (d @ redact_opt r (l @ [newline])) @ concat (map (redact_opt r) (fst (line_split t))))"
      using s(1) by (intro less) simp
    finally show ?thesis using s by (simp add: line_split_line)
  next
    case False
    then show ?thesis by (subst drain_lines.simps) (simp add: line_split_partial)
  qed
qed

lemma line_split_rest: "newline \<notin> set (snd (line_split s))"
proof (induction "length s" arbitrary: s rule: less_induct)
  case less
  show ?case
  proof (cases "newline \<in> set s")
    case True
    then obtain l u where s: "s = l @ newline # u" "newline \<notin> set l" by (rule split_first_newline)
    with less [of u] show ?thesis by (simp add: line_split_line)
  qed (simp add: line_split_partial)
qed

lemma partial_short:
  assumes "list_all (\<lambda>l. length l \<le> n) (lines_of (s @ t))"
  shows "length (snd (line_split s)) \<le> n"
proof -
  let ?q = "snd (line_split s)"
  note q = line_split_rest [of s]
  have lines: "list_all (\<lambda>l. length l \<le> n) (lines_of (?q @ t))"
    using assms line_split_append [of s t] by (auto simp: lines_of_def)
  show ?thesis
  proof (cases "newline \<in> set t")
    case True
    then obtain l u where t: "t = l @ newline # u" "newline \<notin> set l" by (rule split_first_newline)
    with q lines have "length (?q @ l @ [newline]) \<le> n"
      using line_split_line [of "?q @ l" u] by (simp add: lines_of_def)
    then show ?thesis by simp
  next
    case False
    with q have "line_split (?q @ t) = ([], ?q @ t)" by (intro line_split_partial) simp
    with lines show ?thesis by (cases "?q @ t = []") (auto simp: lines_of_def)
  qed
qed

lemma rw_write_short:
  assumes "\<not> rw_nil w" "length (snd (line_split (rw_buf w @ p))) \<le> max_buffer"
  shows "rw_write collect w p = (Inr (length p), w\<lparr>rw_buf := snd (line_split (rw_buf w @ p)),
    rw_dst := rw_dst w @ concat (map (redact_opt (rw_redactor w)) (fst (line_split (rw_buf w @ p))))\<rparr>)"
  using assms by (simp add: rw_write_def drain_lines_collect flush_oversized_def Let_def)

lemma write_chunks:
  assumes "\<not> rw_nil w" "newline \<notin> set (rw_buf w)"
    and "list_all (\<lambda>l. length l \<le> max_buffer) (lines_of (rw_buf w @ concat chunks))"
  shows "foldl (\<lambda>w p. snd (rw_write collect w p)) w chunks =
    w\<lparr>rw_buf := snd (line_split (rw_buf w @ concat chunks)),
      rw_dst := rw_dst w @ concat (map (redact_opt (rw_redactor w))
        (fst (line_split (rw_buf w @ concat chunks))))\<rparr>"
  using assms
proof (induction chunks arbitrary: w)
  case Nil
  then show ?case by (simp add: line_split_partial)
next
  case (Cons p ps)
  let ?w = "snd (rw_write collect w p)"
  have short: "length (snd (line_split (rw_buf w @ p))) \<le> max_buffer"
    using Cons.prems(3) by (intro partial_short [of _ _ "concat ps"]) simp
  note wrote = rw_write_short [OF Cons.prems(1) short]
  have "list_all (\<lambda>l. length l \<le> max_buffer) (lines_of (snd (line_split (rw_buf w @ p)) @ concat ps))"
    using Cons.prems(3) line_split_append [of "rw_buf w @ p" "concat ps"] by (auto simp: lines_of_def)
  then have "foldl (\<lambda>w p. snd (rw_write collect w p)) ?w ps =
      ?w\<lparr>rw_buf := snd (line_split (rw_buf ?w @ concat ps)),
         rw_dst := rw_dst ?w @ concat (map (redact_opt (rw_redactor ?w))
           (fst (line_split (rw_buf ?w @ concat ps))))\<rparr>"
    using Cons.prems(1) by (intro Cons.IH) (simp_all add: wrote line_split_rest)
  then show ?case
    using line_split_append [of "rw_buf w @ p" "concat ps"] by (simp add: wrote)
qed

lemma index_of_Some:
  "index_of sub s = Some i \<Longrightarrow> prefix sub (drop i s) \<and> (\<forall>j<i. \<not> prefix sub (drop j s))"
proof (induction s arbitrary: i)
  case (Cons c s)
  show ?case
  proof (cases "prefix sub (c # s)")
    case True
    with Cons.prems show ?thesis by simp
  next
    case False
    with Cons.prems obtain k where "index_of sub s = Some k" "i = Suc k" by auto
    with Cons.IH [of k] False show ?thesis by (auto simp: less_Suc_eq_0_disj)
  qed
qed (simp split: if_splits)

lemma index_of_None: "index_of sub s = None \<Longrightarrow> prefix sub (drop j s) \<Longrightarrow> False"
proof (induction s arbitrary: j)
  case (Cons c s)
  then show ?case by (cases j) (auto split: if_splits)
qed (simp split: if_splits)

text \<open>An occurrence of a literal, and an occurrence that a cut would split.\<close>

definition occurs_at :: "string \<Rightarrow> string \<Rightarrow> nat \<Rightarrow> bool" where
  "occurs_at lit data at \<longleftrightarrow> lit \<noteq> [] \<and> prefix lit (drop at data)"

definition splits :: "string \<Rightarrow> nat \<Rightarrow> nat \<Rightarrow> bool" where
  "splits lit at n \<longleftrightarrow> at < n \<and> n < at + length lit"

definition disjoint_occurrences :: "string list \<Rightarrow> string \<Rightarrow> bool" where
  "disjoint_occurrences lits data \<longleftrightarrow>
     (\<forall>l\<in>set lits. \<forall>l'\<in>set lits. \<forall>a a'. occurs_at l data a \<longrightarrow> occurs_at l' data a' \<longrightarrow>
        (l = l' \<and> a = a') \<or> a + length l \<le> a' \<or> a' + length l' \<le> a)"

lemma occurs_at_bound:
  assumes "occurs_at lit data at"
  shows "at + length lit \<le> length data"
proof -
  have "length lit \<le> length data - at" "lit \<noteq> []"
    using assms prefix_length_le [of lit "drop at data"] by (auto simp: occurs_at_def)
  then show ?thesis by (cases lit) auto
qed

lemma index_from_first:
  assumes "lit \<noteq> []" "index_from lit data i = Some at"
  shows "occurs_at lit data at" "i \<le> at" "\<And>a. i \<le> a \<Longrightarrow> occurs_at lit data a \<Longrightarrow> at \<le> a"
proof -
  from assms(2) obtain k where k: "index_of lit (drop i data) = Some k" "at = i + k"
    by (auto simp: index_from_def)
  note spec = index_of_Some [OF k(1)]
  show "occurs_at lit data at" "i \<le> at"
    using spec assms(1) k(2) by (simp_all add: occurs_at_def add.commute)
  fix a
  assume a: "i \<le> a" "occurs_at lit data a"
  show "at \<le> a"
  proof (rule ccontr)
    assume "\<not> at \<le> a"
    with a k(2) have "a - i < k" by auto
    with spec have "\<not> prefix lit (drop (a - i) (drop i data))" by blast
    with a show False by (simp add: occurs_at_def)
  qed
qed

lemma index_from_exists:
  assumes "occurs_at lit data a" "i \<le> a"
  obtains at where "index_from lit data i = Some at"
proof -
  have "prefix lit (drop (a - i) (drop i data))"
    using assms by (simp add: occurs_at_def)
  then have "index_of lit (drop i data) \<noteq> None"
    using index_of_None by blast
  then show ?thesis using that by (auto simp: index_from_def)
qed

lemma shrink_literal_fixed:
  assumes "lit \<noteq> []" "\<And>a. occurs_at lit data a \<Longrightarrow> \<not> splits lit a c"
  shows "shrink_literal lit data i c = c"
proof (induction "Suc (length data) - i" arbitrary: i rule: less_induct)
  case less
  show ?case
  proof (cases "i + length lit \<le> length data \<and> index_from lit data i \<noteq> None")
    case True
    then obtain at where at: "index_from lit data i = Some at" by auto
    note first = index_from_first [OF assms(1) at]
    have "straddle_step (length lit) c at = c"
      using assms(2) [OF first(1)] by (auto simp: straddle_step_def splits_def)
    moreover have "shrink_literal lit data (at + 1) c = c"
      using True first(2) by (intro less) auto
    ultimately show ?thesis
      using True at by (subst shrink_literal.simps) simp
  next
    case False
    then show ?thesis by (subst shrink_literal.simps) auto
  qed
qed

lemma shrink_literal_hit:
  assumes disj: "disjoint_occurrences lits data" and lit: "lit \<in> set lits"
    and occ: "occurs_at lit data a" and c: "splits lit a c"
  shows "i \<le> a \<Longrightarrow> shrink_literal lit data i c = a"
proof (induction "Suc (length data) - i" arbitrary: i rule: less_induct)
  case less
  have ne: "lit \<noteq> []" using occ by (simp add: occurs_at_def)
  obtain at where at: "index_from lit data i = Some at"
    using occ less.prems by (rule index_from_exists)
  note first = index_from_first [OF ne at]
  have bound: "i + length lit \<le> length data" using occurs_at_bound [OF occ] less.prems by simp
  have "at \<le> a" using first(3) occ less.prems by blast
  then consider "at = a" | "at < a" by linarith
  then show ?case
  proof cases
    case 1
    have "shrink_literal lit data (a + 1) a = a"
    proof (rule shrink_literal_fixed [OF ne])
      fix a'
      assume "occurs_at lit data a'"
      with disj lit occ have "a' = a \<or> a + length lit \<le> a' \<or> a' + length lit \<le> a"
        unfolding disjoint_occurrences_def by blast
      then show "\<not> splits lit a' a" by (auto simp: splits_def)
    qed
    with 1 at bound c show ?thesis
      by (subst shrink_literal.simps) (simp add: straddle_step_def splits_def)
  next
    case 2
    with disj lit occ first(1) have "at + length lit \<le> a"
      unfolding disjoint_occurrences_def by fastforce
    with c have "straddle_step (length lit) c at = c"
      by (auto simp: straddle_step_def splits_def)
    moreover have "shrink_literal lit data (at + 1) c = a"
      using 2 first(2) bound less.prems occurs_at_bound [OF occ] by (intro less) auto
    ultimately show ?thesis
      using at bound by (subst shrink_literal.simps) simp
  qed
qed

lemma shrink_literals_fixed:
  assumes "[] \<notin> set lits" "\<And>l a. l \<in> set lits \<Longrightarrow> occurs_at l data a \<Longrightarrow> \<not> splits l a c"
  shows "foldl (\<lambda>c lit. shrink_literal lit data 0 c) c lits = c"
  using assms
proof (induction lits)
  case (Cons l lits)
  then have "shrink_literal l data 0 c = c" by (intro shrink_literal_fixed) auto
  with Cons show ?case by simp
qed simp

lemma shrink_literals_hit:
  assumes disj: "disjoint_occurrences all_lits data" and sub: "set lits \<subseteq> set all_lits"
    and ne: "[] \<notin> set all_lits"
    and l: "l \<in> set lits" "occurs_at l data a" "splits l a c"
  shows "foldl (\<lambda>c lit. shrink_literal lit data 0 c) c lits = a"
  using sub l(1)
proof (induction lits)
  case (Cons m lits)
  have other: "\<not> splits k b a" if "k \<in> set all_lits" "occurs_at k data b" for k b
  proof -
    have "l \<in> set all_lits" using Cons.prems by auto
    with that disj l(2) have "(k = l \<and> b = a) \<or> b + length k \<le> a \<or> a + length l \<le> b"
      unfolding disjoint_occurrences_def by blast
    then show ?thesis by (auto simp: splits_def)
  qed
  show ?case
  proof (cases "m = l")
    case True
    have "shrink_literal m data 0 c = a"
      using shrink_literal_hit [OF disj _ l(2,3), of 0] True Cons.prems by auto
    moreover have "foldl (\<lambda>c lit. shrink_literal lit data 0 c) a lits = a"
      using Cons.prems ne other by (intro shrink_literals_fixed) auto
    ultimately show ?thesis by simp
  next
    case False
    have "shrink_literal m data 0 c = c"
    proof (rule shrink_literal_fixed)
      fix b
      assume "occurs_at m data b"
      moreover have "m \<in> set all_lits" "l \<in> set all_lits" using Cons.prems by auto
      ultimately have "b + length m \<le> a \<or> a + length l \<le> b"
        using disj l(2) False unfolding disjoint_occurrences_def by blast
      with l(3) show "\<not> splits m b c" by (auto simp: splits_def)
    qed (use Cons.prems ne in auto)
    with Cons False show ?thesis by simp
  qed
qed simp

section \<open>A concrete redactor\<close>

definition filler :: "nat \<Rightarrow> string" where
  "filler n = replicate n (CHR ''z'')"

lemma filler_suffix:
  assumes "suffix t (filler n @ ''ab'')" "t \<noteq> []"
  shows "hd t \<in> {CHR ''z'', CHR ''a'', CHR ''b''}" and "\<not> prefix ''aba'' t"
proof -
  have "set t \<subseteq> {CHR ''z'', CHR ''a'', CHR ''b''}"
    using set_mono_suffix [OF assms(1)] by (auto simp: filler_def)
  with assms(2) show "hd t \<in> {CHR ''z'', CHR ''a'', CHR ''b''}" by (cases t) auto
  show "\<not> prefix ''aba'' t"
  proof
    assume "prefix ''aba'' t"
    then have "sublist ''aba'' (filler n @ ''ab'')"
      using assms(1) by (meson prefix_imp_sublist suffix_imp_sublist sublist_order.order_trans)
    then show False
      by (induction n) (auto simp: filler_def sublist_Cons_right)
  qed
qed

lemma no_start:
  assumes "t \<noteq> []"
  shows "l \<noteq> [] \<Longrightarrow> hd l \<noteq> hd t \<Longrightarrow> first_remainder (Seq (Lit l # rs)) t = None"
    and "list_all (\<lambda>l. l \<noteq> [] \<and> hd l \<noteq> hd t) ls \<Longrightarrow> first_remainder (Seq (Alts ls # rs)) t = None"
proof -
  have "\<not> prefix l t" if "l \<noteq> []" "hd l \<noteq> hd t" for l
    using that assms by (cases l; cases t) auto
  then show "l \<noteq> [] \<Longrightarrow> hd l \<noteq> hd t \<Longrightarrow> first_remainder (Seq (Lit l # rs)) t = None"
    "list_all (\<lambda>l. l \<noteq> [] \<and> hd l \<noteq> hd t) ls \<Longrightarrow> first_remainder (Seq (Alts ls # rs)) t = None"
    by (auto simp: first_remainder_def list_all_iff)
qed

lemma redact_filler: "redact_bytes aba_redactor (filler n @ ''ab'') = filler n @ ''ab''"
proof -
  have lit: "replace_all (match_literal [''aba'']) (filler n @ ''ab'') = filler n @ ''ab''"
    using filler_suffix(2) by (intro replace_all_id) (simp add: match_literal_def)
  have "first_remainder re t = None"
    if "re \<in> set default_patterns" "suffix t (filler n @ ''ab'')" "t \<noteq> []" for re t
    using filler_suffix(1) [OF that(2,3)] that(1,3)
    by (auto simp: default_patterns_def no_start simp del: remainders.simps)
  then have "replace_all (first_remainder re) (filler n @ ''ab'') = filler n @ ''ab''"
    if "re \<in> set default_patterns" for re
    using that by (intro replace_all_id) auto
  then have "foldl (\<lambda>b f. f b) (filler n @ ''ab'')
      (map (\<lambda>re. replace_all (first_remainder re)) res) = filler n @ ''ab''"
    if "set res \<subseteq> set default_patterns" for res
    using that by (induction res) auto
  then show ?thesis by (simp add: redact_bytes_def aba_redactor_def lit)
qed

lemma index_of_filler:
  "sub \<noteq> [] \<Longrightarrow> hd sub \<noteq> CHR ''z'' \<Longrightarrow> index_of sub (filler n @ t) = map_option (\<lambda>i. n + i) (index_of sub t)"
proof (induction n)
  case (Suc n)
  then have "\<not> prefix sub (CHR ''z'' # filler n @ t)" by (cases sub) auto
  with Suc show ?case by (cases "index_of sub t") (auto simp: filler_def)
qed (cases "index_of sub t"; simp add: filler_def)

lemma filler_boundary:
  "safe_boundary (Some aba_redactor) (filler n @ ''ababa'') (n + 3) = n + 2"
proof -
  let ?d = "filler n @ ''ababa''"
  have len: "length ?d = n + 5" by (simp add: filler_def)
  have i0: "index_from ''aba'' ?d 0 = Some n"
    by (simp add: index_from_def index_of_filler)
  have "drop (n + 1) ?d = ''baba''" by (simp add: filler_def)
  then have i1: "index_from ''aba'' ?d (n + 1) = Some (n + 2)"
    by (simp add: index_from_def)
  have "shrink_literal ''aba'' ?d 0 (n + 3) = shrink_literal ''aba'' ?d (n + 1) (n + 3)"
    using i0 len by (subst shrink_literal.simps) (simp add: straddle_step_def)
  also have "\<dots> = shrink_literal ''aba'' ?d (n + 3) (n + 2)"
    using i1 len by (subst shrink_literal.simps) (simp add: straddle_step_def numeral_3_eq_3)
  also have "\<dots> = n + 2"
    using len by (subst shrink_literal.simps) simp
  finally show ?thesis by (simp add: safe_boundary_def aba_redactor_def)
qed

definition sample_writer :: "string redacting_writer" where
  "sample_writer = \<lparr> rw_nil = False, rw_redactor = Some aba_redactor, rw_buf = [], rw_dst = [] \<rparr>"

section \<open>Properties\<close>



text \<open>
  C15. Cutting an oversized line keeps literals whole. If the occurrences of the registered literals
  in the buffer do not overlap, the cut that \<open>flushOversized\<close> chooses is at most the safe boundary
  and splits no occurrence.
\<close>

theorem safe_boundary_splits_nothing:
  assumes "disjoint_occurrences (rd_literals r) data" and "[] \<notin> set (rd_literals r)"
    and "l \<in> set (rd_literals r)" and "occurs_at l data a"
  shows "\<not> splits l a (safe_boundary (Some r) data c)"
proof (cases "\<exists>k\<in>set (rd_literals r). \<exists>b. occurs_at k data b \<and> splits k b c")
  case True
  then obtain k b where k: "k \<in> set (rd_literals r)" "occurs_at k data b" "splits k b c" by blast
  then have "safe_boundary (Some r) data c = b"
    using shrink_literals_hit [OF assms(1) _ assms(2)] by (simp add: safe_boundary_def)
  moreover have "(k = l \<and> b = a) \<or> b + length k \<le> a \<or> a + length l \<le> b"
    using assms k unfolding disjoint_occurrences_def by blast
  ultimately show ?thesis by (auto simp: splits_def)
next
  case False
  then have "safe_boundary (Some r) data c = c"
    using shrink_literals_fixed [OF assms(2)] by (auto simp: safe_boundary_def)
  with False assms(3,4) show ?thesis by auto
qed

theorem safe_boundary_splits_nothing_witness:
  "\<not> splits ''aba'' 1 (safe_boundary (Some aba_redactor) ''xabay'' 3)"
proof -
  have occ: "occurs_at ''aba'' ''xabay'' a \<longleftrightarrow> a = 1" for a
  proof (cases "a < 5")
    case True
    then have "a \<in> {0, 1, 2, 3, 4}" by auto
    then show ?thesis by (auto simp: occurs_at_def)
  qed (simp add: occurs_at_def)
  then have "disjoint_occurrences (rd_literals aba_redactor) ''xabay''"
    by (simp add: disjoint_occurrences_def aba_redactor_def)
  then show ?thesis
    by (rule safe_boundary_splits_nothing) (simp_all add: aba_redactor_def occ)
qed

text \<open>
  C16. Overlapping occurrences defeat the cut. With the literal \<open>aba\<close> registered and an unterminated
  line that ends in \<open>ababa\<close>, the cut is moved to the start of the second occurrence and is not
  compared with the first again: the first two bytes of the first occurrence are written unredacted,
  although redacting the whole line masks it.
\<close>

theorem flush_oversized_leaks_prefix:
  "new_redactor no_extra id id [] [''aba''] = Inr aba_redactor \<and>
   occurs_at ''aba'' (filler max_buffer @ ''ababa'') max_buffer \<and>
   flush_oversized collect (Some aba_redactor) (filler max_buffer @ ''ababa'') [] =
     (Inr (), ''aba'', filler max_buffer @ ''ab'')"
proof (intro conjI)
  show "occurs_at ''aba'' (filler max_buffer @ ''ababa'') max_buffer"
    by (simp add: occurs_at_def filler_def)
  have "length (filler max_buffer @ ''ababa'') - 2 = max_buffer + 3"
    by (simp add: filler_def)
  moreover have "take (max_buffer + 2) (filler max_buffer @ ''ababa'') = filler max_buffer @ ''ab''"
    "drop (max_buffer + 2) (filler max_buffer @ ''ababa'') = ''aba''"
    by (simp_all add: filler_def)
  moreover have "literal_overlap aba_redactor = 2"
    by (simp add: literal_overlap_def aba_redactor_def)
  ultimately show "flush_oversized collect (Some aba_redactor) (filler max_buffer @ ''ababa'') [] =
      (Inr (), ''aba'', filler max_buffer @ ''ab'')"
    using filler_boundary [of max_buffer] redact_filler [of max_buffer]
    by (simp add: flush_oversized_def redact_opt_def collect_def filler_def Let_def numeral_3_eq_3)
qed (rule aba_redactor_new)

end
