(* ===== verification/Event_Store.thy ===== *)
theory Event_Store
  imports Events
begin

text \<open>
  The persistence contract of the log (\<open>core/logd/store.go\<close>) as the locale \<open>event_store\<close>, and its
  SQLite implementation (\<open>seams/store/sqlite\<close>).

  The table is the list of its rows in the order of insertion; a row is an event whose raw field
  holds the bytes of the BLOB column. The statements of the source are the relational operations
  they denote: an \<open>INSERT\<close> fails when its primary key exists, a transaction that fails leaves the
  table as it was, and a \<open>SELECT ... ORDER BY seq\<close> sorts. What the driver answers to each attempt is
  an argument: either the statement runs, or it is refused with an error code, after which the
  caller's context may be done.
\<close>

datatype store_error =
    RawDecode
  | BatchRawDecode nat
  | DuplicateKey int
  | DriverError int
  | ContextDone

section \<open>The raw column\<close>

definition decode_raw :: "string option \<Rightarrow> (unit, string option) result" where
  "decode_raw raw =
     (case raw of
        None \<Rightarrow> Inr None
      | Some s \<Rightarrow> (case b64_decode s of None \<Rightarrow> Inl () | Some b \<Rightarrow> Inr (Some b)))"

definition encode_raw :: "string option \<Rightarrow> string option" where
  "encode_raw b = map_option b64_encode b"

section \<open>Attempts and retries\<close>

definition is_busy :: "int \<Rightarrow> bool" where
  "is_busy code \<longleftrightarrow> code mod 256 = 5 \<or> code mod 256 = 6"

type_synonym attempt = "int option \<times> bool"

text \<open>
  \<open>retryBusy\<close> over the answers of the driver: \<open>None\<close> as a code means that the statement ran, and the
  flag says whether the context is done when the retry would wait. No result means that the call is
  still retrying when the answers end.
\<close>

fun retry_busy :: "attempt list \<Rightarrow> (store_error, 'a) result \<Rightarrow> (store_error, 'a) result option" where
  "retry_busy [] r = None"
| "retry_busy ((None, _) # as) r = Some r"
| "retry_busy ((Some code, done) # as) r =
     (if \<not> is_busy code then Some (Inl (DriverError code))
      else if done then Some (Inl ContextDone)
      else retry_busy as r)"

section \<open>The table\<close>

type_synonym table = "event list"

definition sql_insert :: "table \<Rightarrow> event \<Rightarrow> (store_error, table) result" where
  "sql_insert t row =
     (if ev_seq row \<in> ev_seq ` set t then Inl (DuplicateKey (ev_seq row)) else Inr (t @ [row]))"

definition insert_args :: "event \<Rightarrow> string option \<Rightarrow> event" where
  "insert_args rec raw = rec\<lparr>ev_raw := raw\<rparr>"

definition sqlite_last_seq :: "attempt list \<Rightarrow> table \<Rightarrow> (store_error, int) result option" where
  "sqlite_last_seq env t = retry_busy env (Inr (if t = [] then 0 else Max (ev_seq ` set t)))"

definition sqlite_append ::
    "attempt list \<Rightarrow> table \<Rightarrow> event \<Rightarrow> (store_error, table) result option" where
  "sqlite_append env t rec =
     (case decode_raw (ev_raw rec) of
        Inl _ \<Rightarrow> Some (Inl RawDecode)
      | Inr raw \<Rightarrow> retry_busy env (sql_insert t (insert_args rec raw)))"

fun decode_raws :: "nat \<Rightarrow> event list \<Rightarrow> (store_error, event list) result" where
  "decode_raws i [] = Inr []"
| "decode_raws i (rec # recs) =
     (case decode_raw (ev_raw rec) of
        Inl _ \<Rightarrow> Inl (BatchRawDecode i)
      | Inr raw \<Rightarrow> rbind (decode_raws (Suc i) recs) (\<lambda>rows. Inr (insert_args rec raw # rows)))"

definition sqlite_append_batch ::
    "attempt list \<Rightarrow> table \<Rightarrow> event list \<Rightarrow> (store_error, table) result option" where
  "sqlite_append_batch env t recs =
     (case decode_raws 1 recs of
        Inl e \<Rightarrow> Some (Inl e)
      | Inr rows \<Rightarrow> retry_busy env (rfold sql_insert t rows))"

definition scan_row :: "event \<Rightarrow> event" where
  "scan_row row = row\<lparr>ev_raw := encode_raw (ev_raw row)\<rparr>"

definition select_from :: "table \<Rightarrow> int \<Rightarrow> event list" where
  "select_from t n = map scan_row (sort_key ev_seq (filter (\<lambda>row. n \<le> ev_seq row) t))"

definition sqlite_read_from ::
    "attempt list \<Rightarrow> table \<Rightarrow> int \<Rightarrow> (store_error, event list) result option" where
  "sqlite_read_from env t n = retry_busy env (Inr (select_from t n))"

section \<open>The contract\<close>

text \<open>
  An append of an event above everything stored adds it at the end; a batch is added as a whole;
  the log is in the order of its sequence numbers and reading from a sequence number returns the
  part of it from there on. An operation that fails returns no new state.
\<close>

locale event_store =
  fixes wf :: "'st \<Rightarrow> bool"
    and log :: "'st \<Rightarrow> event list"
    and app :: "'env \<Rightarrow> 'st \<Rightarrow> event \<Rightarrow> ('e, 'st) result option"
    and bat :: "'env \<Rightarrow> 'st \<Rightarrow> event list \<Rightarrow> ('e, 'st) result option"
    and read :: "'env \<Rightarrow> 'st \<Rightarrow> int \<Rightarrow> ('e, event list) result option"
    and last :: "'env \<Rightarrow> 'st \<Rightarrow> ('e, int) result option"
    and stored :: "event \<Rightarrow> event"
  assumes stored_seq: "ev_seq (stored e) = ev_seq e"
    and log_sorted: "wf st \<Longrightarrow> sorted_wrt (<) (map ev_seq (log st))"
    and app_wf: "wf st \<Longrightarrow> app env st e = Some (Inr st') \<Longrightarrow> wf st'"
    and app_log: "wf st \<Longrightarrow> app env st e = Some (Inr st') \<Longrightarrow>
      list_all (\<lambda>x. ev_seq x < ev_seq e) (log st) \<Longrightarrow> log st' = log st @ [stored e]"
    and bat_wf: "wf st \<Longrightarrow> bat env st es = Some (Inr st') \<Longrightarrow> wf st'"
    and bat_log: "wf st \<Longrightarrow> bat env st es = Some (Inr st') \<Longrightarrow>
      sorted_wrt (<) (map ev_seq (log st @ es)) \<Longrightarrow> log st' = log st @ map stored es"
    and read_log: "wf st \<Longrightarrow> read env st n = Some (Inr es) \<Longrightarrow>
      es = filter (\<lambda>x. n \<le> ev_seq x) (log st)"
    and last_log: "wf st \<Longrightarrow> last env st = Some (Inr n) \<Longrightarrow>
      n = (if log st = [] then 0 else ev_seq (List.last (log st)))"
begin

lemma log_distinct: "wf st \<Longrightarrow> distinct (map ev_seq (log st))"
  using log_sorted strict_sorted_iff by blast

lemma log_below_last:
  assumes "wf st" "last env st = Some (Inr n)"
  shows "list_all (\<lambda>x. ev_seq x \<le> n) (log st)"
proof (cases "log st" rule: rev_cases)
  case (snoc xs x)
  with log_sorted [OF assms(1)] last_log [OF assms] show ?thesis
    by (auto simp: list_all_iff sorted_wrt_append)
qed simp

end

section \<open>SQLite implements the contract\<close>

definition table_wf :: "table \<Rightarrow> bool" where
  "table_wf t \<longleftrightarrow> distinct (map ev_seq t)"

definition table_log :: "table \<Rightarrow> event list" where
  "table_log t = map scan_row (sort_key ev_seq t)"

definition sqlite_stored :: "event \<Rightarrow> event" where
  "sqlite_stored e =
     e\<lparr>ev_raw := Option.bind (ev_raw e) (\<lambda>s. map_option b64_encode (b64_decode s))\<rparr>"

lemma retry_busy_Inr: "retry_busy env r = Some (Inr x) \<Longrightarrow> r = Inr x"
  by (induction env r rule: retry_busy.induct) (auto split: if_splits)

lemma ev_seq_scan_row [simp]: "ev_seq (scan_row e) = ev_seq e"
  by (simp add: scan_row_def)

lemma ev_seq_comp_scan_row [simp]: "ev_seq \<circ> scan_row = ev_seq"
  by (simp add: fun_eq_iff)

lemma sort_key_snoc:
  assumes "\<forall>y\<in>set xs. f y < f x"
  shows "sort_key f (xs @ [x]) = sort_key f xs @ [x]"
proof (rule properties_for_sort_key)
  show "sorted (map f (sort_key f xs @ [x]))"
    using assms by (auto simp: sorted_append less_imp_le)
  show "filter (\<lambda>y. f k = f y) (sort_key f xs @ [x]) = filter (\<lambda>y. f k = f y) (xs @ [x])"
    if "k \<in> set (sort_key f xs @ [x])" for k
    using sort_key_stable [of f "f k" xs] by (simp add: eq_commute)
qed simp

lemma table_log_snoc:
  assumes "list_all (\<lambda>x. ev_seq x < ev_seq row) (table_log t)"
  shows "table_log (t @ [row]) = table_log t @ [scan_row row]"
  using assms sort_key_snoc [of t ev_seq row] by (simp add: table_log_def list_all_iff)

lemma table_log_append:
  assumes "sorted_wrt (<) (map ev_seq (table_log t @ rows))"
  shows "table_log (t @ rows) = table_log t @ map scan_row rows"
  using assms
proof (induction rows arbitrary: t)
  case (Cons row rows)
  have log: "table_log (t @ [row]) = table_log t @ [scan_row row]"
    using Cons.prems by (intro table_log_snoc) (auto simp: sorted_wrt_append list_all_iff)
  have "table_log ((t @ [row]) @ rows) = table_log (t @ [row]) @ map scan_row rows"
    using Cons.prems by (intro Cons.IH) (simp add: log)
  with log show ?case by simp
qed simp

lemma sql_insert_Inr:
  "sql_insert t row = Inr t' \<longleftrightarrow> t' = t @ [row] \<and> ev_seq row \<notin> ev_seq ` set t"
  by (auto simp: sql_insert_def)

lemma rfold_insert_Inr:
  "rfold sql_insert t rows = Inr t' \<Longrightarrow> t' = t @ rows \<and> (table_wf t \<longrightarrow> table_wf t')"
proof (induction rows arbitrary: t)
  case (Cons row rows)
  then obtain u where "sql_insert t row = Inr u" "rfold sql_insert u rows = Inr t'"
    by (auto simp: rbind_Inr_iff)
  moreover from this have "u = t @ [row]" "table_wf t \<longrightarrow> table_wf u"
    by (auto simp: sql_insert_Inr table_wf_def)
  ultimately show ?case using Cons.IH [of u] by auto
qed simp

lemma decode_raw_Inr:
  "decode_raw (ev_raw e) = Inr raw \<Longrightarrow> scan_row (insert_args e raw) = sqlite_stored e"
  by (auto simp: decode_raw_def scan_row_def insert_args_def sqlite_stored_def encode_raw_def
      split: option.splits)

lemma decode_raws_Inr:
  "decode_raws i es = Inr rows \<Longrightarrow> map scan_row rows = map sqlite_stored es \<and> map ev_seq rows = map ev_seq es"
proof (induction i es arbitrary: rows rule: decode_raws.induct)
  case (2 i e es)
  then show ?case
    by (auto simp: rbind_Inr_iff insert_args_def [of e] decode_raw_Inr split: sum.splits)
      (auto simp: insert_args_def [symmetric] decode_raw_Inr)
qed simp

lemma sqlite_append_Inr:
  assumes "sqlite_append env t e = Some (Inr t')"
  obtains raw where "decode_raw (ev_raw e) = Inr raw" "t' = t @ [insert_args e raw]"
    "ev_seq e \<notin> ev_seq ` set t"
  using assms
  by (auto simp: sqlite_append_def insert_args_def sql_insert_Inr split: sum.splits dest!: retry_busy_Inr)

lemma sqlite_batch_Inr:
  assumes "sqlite_append_batch env t es = Some (Inr t')"
  obtains rows where "decode_raws 1 es = Inr rows" "rfold sql_insert t rows = Inr t'"
  using assms by (auto simp: sqlite_append_batch_def split: sum.splits dest!: retry_busy_Inr)

lemma table_log_sorted: "table_wf t \<Longrightarrow> sorted_wrt (<) (map ev_seq (table_log t))"
  by (simp add: table_log_def table_wf_def strict_sorted_iff distinct_map)

lemma table_log_Nil_iff [simp]: "table_log t = [] \<longleftrightarrow> t = []"
  by (metis table_log_def length_0_conv length_map length_sort)

lemma Max_eq_last:
  fixes xs :: "int list"
  assumes "sorted xs" "xs \<noteq> []"
  shows "Max (set xs) = last xs"
  using assms by (cases xs rule: rev_cases) (auto simp: sorted_append intro!: Max_eqI)

interpretation sqlite: event_store table_wf table_log sqlite_append sqlite_append_batch
  sqlite_read_from sqlite_last_seq sqlite_stored
proof unfold_locales
  fix t t' :: table and env e es n
  show "ev_seq (sqlite_stored e) = ev_seq e" by (simp add: sqlite_stored_def)
  assume wf: "table_wf t"
  show "sorted_wrt (<) (map ev_seq (table_log t))" using wf by (rule table_log_sorted)
  show "table_wf t'" if "sqlite_append env t e = Some (Inr t')"
    using that wf by (elim sqlite_append_Inr) (auto simp: table_wf_def insert_args_def)
  show "table_log t' = table_log t @ [sqlite_stored e]"
    if "sqlite_append env t e = Some (Inr t')" "list_all (\<lambda>x. ev_seq x < ev_seq e) (table_log t)"
    using that table_log_snoc [of "insert_args e raw" t for raw]
    by (elim sqlite_append_Inr) (auto simp: insert_args_def [of e] decode_raw_Inr [symmetric])
  show "table_wf t'" if "sqlite_append_batch env t es = Some (Inr t')"
    using that wf by (elim sqlite_batch_Inr) (auto dest: rfold_insert_Inr)
  show "table_log t' = table_log t @ map sqlite_stored es"
    if "sqlite_append_batch env t es = Some (Inr t')" "sorted_wrt (<) (map ev_seq (table_log t @ es))"
    using that by (elim sqlite_batch_Inr)
      (auto dest!: rfold_insert_Inr decode_raws_Inr simp: table_log_append)
  show "es = filter (\<lambda>x. n \<le> ev_seq x) (table_log t)"
    if "sqlite_read_from env t n = Some (Inr es)"
    using that wf
    by (auto simp: sqlite_read_from_def select_from_def table_log_def filter_map comp_def filter_sort
        dest!: retry_busy_Inr)
  show "n = (if table_log t = [] then 0 else ev_seq (last (table_log t)))"
    if "sqlite_last_seq env t = Some (Inr n)"
  proof (cases "t = []")
    case False
    have "sorted (map ev_seq (table_log t))" using table_log_sorted [OF wf] by (simp add: strict_sorted_iff)
    then have "Max (set (map ev_seq (table_log t))) = last (map ev_seq (table_log t))"
      using False by (intro Max_eq_last) simp_all
    moreover have "set (map ev_seq (table_log t)) = ev_seq ` set t"
      by (simp add: table_log_def image_comp)
    moreover have "last (map ev_seq (table_log t)) = ev_seq (last (table_log t))"
      using False by (simp add: last_map)
    moreover have "n = Max (ev_seq ` set t)"
      using that False by (auto simp: sqlite_last_seq_def dest!: retry_busy_Inr)
    ultimately show ?thesis using False by simp
  qed (use that retry_busy_Inr in \<open>fastforce simp: sqlite_last_seq_def table_log_def\<close>)
qed

end
