(* ===== verification/Contracts.thy ===== *)
theory Contracts
  imports Events
begin

text \<open>
  The record validator (\<open>contracts/validate/validate.go\<close>): the JSON Schema check, which is the
  argument \<open>schema\<close> (the message of a violation, or \<open>None\<close>), and the semantic checks on the extensions
  of a \<open>subagent/spawn\<close> event that the source makes itself. An array of extensions is decoded from
  its last occurrence in the payload.
\<close>

record spawn_extension =
  sx_name :: string
  sx_version :: string
  sx_integrity :: string
  sx_source :: string
  sx_artifact_digest :: string

datatype contract_error =
    SchemaViolation string
  | BadEnvelope
  | BadSpawnPayload
  | DuplicateIdentity nat
  | OrderViolation nat

definition spawn_extension_fields :: "string list" where
  "spawn_extension_fields = [''name'', ''version'', ''integrity'', ''source'', ''artifact_digest'']"

definition decode_spawn_extension :: "string \<Rightarrow> spawn_extension option" where
  "decode_spawn_extension raw =
     Option.bind (struct_members raw) (\<lambda>ms.
       let str = (\<lambda>f. decode_field dec_string [] (field_raws spawn_extension_fields f ms)) in
       Option.bind (str ''name'') (\<lambda>n.
       Option.bind (str ''version'') (\<lambda>v.
       Option.bind (str ''integrity'') (\<lambda>i.
       Option.bind (str ''source'') (\<lambda>s.
       Option.bind (str ''artifact_digest'') (\<lambda>a.
         Some \<lparr> sx_name = n, sx_version = v, sx_integrity = i, sx_source = s,
                sx_artifact_digest = a \<rparr>))))))"

fun map_opt :: "('a \<Rightarrow> 'b option) \<Rightarrow> 'a list \<Rightarrow> 'b list option" where
  "map_opt f [] = Some []"
| "map_opt f (x # xs) =
     Option.bind (f x) (\<lambda>y. Option.bind (map_opt f xs) (\<lambda>ys. Some (y # ys)))"

definition decode_spawn_extensions :: "string \<Rightarrow> spawn_extension list option" where
  "decode_spawn_extensions payload =
     Option.bind (struct_members payload) (\<lambda>ms.
       decode_field (\<lambda>raw. Option.bind (array_elements raw) (map_opt decode_spawn_extension)) []
         (field_raws [''extensions''] ''extensions'' ms))"

definition sx_identity :: "spawn_extension \<Rightarrow> string" where
  "sx_identity x =
     join_with [CHR 0x00] [sx_name x, sx_version x, sx_integrity x, sx_source x]"

definition sx_order :: "spawn_extension \<Rightarrow> string" where
  "sx_order x =
     join_with [CHR 0x00]
       [sx_name x, sx_version x, sx_source x, sx_integrity x, sx_artifact_digest x]"

fun check_extensions ::
    "nat \<Rightarrow> string list \<Rightarrow> string \<Rightarrow> spawn_extension list \<Rightarrow> (contract_error, unit) result" where
  "check_extensions i seen previous [] = Inr ()"
| "check_extensions i seen previous (x # xs) =
     (if sx_identity x \<in> set seen then Inl (DuplicateIdentity i)
      else if 0 < i \<and> sx_order x < previous then Inl (OrderViolation i)
      else check_extensions (Suc i) (sx_identity x # seen) (sx_order x) xs)"

definition validate_spawn_extensions :: "string \<Rightarrow> (contract_error, unit) result" where
  "validate_spawn_extensions payload =
     (case decode_spawn_extensions payload of
        None \<Rightarrow> Inl BadSpawnPayload
      | Some xs \<Rightarrow> check_extensions 0 [] [] xs)"

definition decode_envelope :: "string \<Rightarrow> (string \<times> string) option" where
  "decode_envelope data =
     Option.bind (struct_members data) (\<lambda>ms.
     Option.bind (decode_field dec_string [] (field_raws [''kind'', ''payload''] ''kind'' ms)) (\<lambda>kind.
       let raws = field_raws [''kind'', ''payload''] ''payload'' ms in
       Some (kind, if raws = [] then [] else last raws)))"

definition validate_record ::
    "(string \<Rightarrow> string option) \<Rightarrow> string \<Rightarrow> (contract_error, unit) result" where
  "validate_record schema data =
     (case schema data of
        Some msg \<Rightarrow> Inl (SchemaViolation msg)
      | None \<Rightarrow>
          (case decode_envelope data of
             None \<Rightarrow> Inl BadEnvelope
           | Some (kind, payload) \<Rightarrow>
               if kind = ''subagent/spawn'' then validate_spawn_extensions payload else Inr ()))"

section \<open>Lemmas\<close>

lemma check_extensions_iff:
  "check_extensions i seen previous xs = Inr () \<longleftrightarrow>
     distinct (map sx_identity xs) \<and> sx_identity ` set xs \<inter> set seen = {} \<and>
     sorted (map sx_order xs) \<and> (0 < i \<longrightarrow> xs \<noteq> [] \<longrightarrow> previous \<le> sx_order (hd xs))"
proof (induction i seen previous xs rule: check_extensions.induct)
  case (2 i seen previous x xs)
  show ?case
  proof (cases "sx_identity x \<in> set seen \<or> 0 < i \<and> sx_order x < previous")
    case True
    then show ?thesis by auto
  next
    case False
    with 2 show ?thesis
      by (cases xs) (auto simp: not_less intro: order_trans)
  qed
qed simp

lemma envelope_of_event:
  assumes "parses k payload v" "Suc k \<le> max_nesting"
  shows "decode_envelope (print_object (event_fields e payload)) = Some (utf8_sanitize (ev_kind e), payload)"
proof -
  let ?ms = "event_fields e payload"
  have "field_raws [''kind'', ''payload''] ''kind'' ?ms = [quote_json True (ev_kind e)]"
    "field_raws [''kind'', ''payload''] ''payload'' ?ms = [payload]"
    by (auto simp: field_raws_def event_fields_def opt_field_def byte_def split: option.splits)
  then show ?thesis
    using event_members [OF assms, of e] by (simp add: decode_envelope_def dec_string_quote)
qed

text \<open>
  C17. The semantic check of a spawn event accepts exactly the payloads whose extensions decode, have
  distinct identities, and stand in the order of their keys.
\<close>

theorem validate_spawn_extensions_iff:
  "validate_spawn_extensions payload = Inr () \<longleftrightarrow>
     (\<exists>xs. decode_spawn_extensions payload = Some xs \<and>
       distinct (map sx_identity xs) \<and> sorted (map sx_order xs))"
  by (auto simp: validate_spawn_extensions_def check_extensions_iff split: option.splits)

end
