(* ===== verification/Log_Writer.thy ===== *)
theory Log_Writer
  imports Event_Store Redaction Contracts
begin

text \<open>
  The single writer of the event log (\<open>core/logd/writer.go\<close>): the pipeline that prepares an event,
  the loop's \<open>process\<close>, and the protocol between the callers of \<open>Submit\<close> and \<open>InitBatch\<close>, the
  bounded queue, the loop and \<open>Close\<close> as a step relation.

  The store is given by its two operations \<open>app\<close> and \<open>bat\<close> and the events are prepared by \<open>prep\<close>, the
  model's \<open>prepare\<close> with a redactor and a schema. A call is a client number; its phase says how far
  the call has come. \<open>wr_acks\<close> lists the answers of the loop in the order in which it gave them.
\<close>

section \<open>Preparing an event\<close>

datatype reject = RedactionFailed string | NotSerializable | ContractViolation contract_error

definition prepare ::
    "redactor \<Rightarrow> (string \<Rightarrow> string option) \<Rightarrow> event \<Rightarrow> int \<Rightarrow> (reject, event) result" where
  "prepare red schema rec seq =
     rbind (rmap_error RedactionFailed (redact_event red (rec\<lparr>ev_seq := seq\<rparr>))) (\<lambda>r.
       case marshal_event r of
         None \<Rightarrow> Inl NotSerializable
       | Some encoded \<Rightarrow>
           rbind (rmap_error ContractViolation (validate_record schema encoded)) (\<lambda>_. Inr r))"

section \<open>The loop\<close>

datatype 'e write_error =
    ErrClosed
  | ErrTerminal 'e
  | ErrDestinationNotEmpty
  | Rejected reject
  | BatchRejected nat reject
  | EmptyBatch
  | CtxErr

datatype submission = Single event | Batch "event list"

record ('st, 'e) core_state =
  co_store :: 'st
  co_next :: int
  co_terminal :: "'e option"

type_synonym preparer = "event \<Rightarrow> int \<Rightarrow> (reject, event) result"
type_synonym ('env, 'st, 'e) appender = "'env \<Rightarrow> 'st \<Rightarrow> event \<Rightarrow> ('e, 'st) result option"
type_synonym ('env, 'st, 'e) batcher = "'env \<Rightarrow> 'st \<Rightarrow> event list \<Rightarrow> ('e, 'st) result option"
type_synonym 'e ack = "('e write_error, int) result"

fun prepare_batch :: "preparer \<Rightarrow> nat \<Rightarrow> event list \<Rightarrow> (nat \<times> reject, event list) result" where
  "prepare_batch prep i [] = Inr []"
| "prepare_batch prep i (rec # recs) =
     (case prep rec (int (Suc i)) of
        Inl e \<Rightarrow> Inl (Suc i, e)
      | Inr p \<Rightarrow> rbind (prepare_batch prep (Suc i) recs) (\<lambda>ps. Inr (p # ps)))"

text \<open>
  \<open>process\<close>: the answer and the new state; no result while the store has not answered. A failed
  commit makes the writer terminal with the cause.
\<close>

definition process ::
    "preparer \<Rightarrow> ('env, 'st, 'e) appender \<Rightarrow> ('env, 'st, 'e) batcher \<Rightarrow> 'env
       \<Rightarrow> submission \<Rightarrow> ('st, 'e) core_state \<Rightarrow> ('e ack \<times> ('st, 'e) core_state) option" where
  "process prep app bat env sub c =
     (case co_terminal c of
        Some cause \<Rightarrow> Some (Inl (ErrTerminal cause), c)
      | None \<Rightarrow>
          (case sub of
             Batch recs \<Rightarrow>
               if co_next c \<noteq> 1 then Some (Inl ErrDestinationNotEmpty, c)
               else (case prepare_batch prep 0 recs of
                       Inl (k, e) \<Rightarrow> Some (Inl (BatchRejected k e), c)
                     | Inr prepared \<Rightarrow>
                         (case bat env (co_store c) prepared of
                            None \<Rightarrow> None
                          | Some (Inl cause) \<Rightarrow>
                              Some (Inl (ErrTerminal cause), c\<lparr>co_terminal := Some cause\<rparr>)
                          | Some (Inr st) \<Rightarrow>
                              (let next = co_next c + int (length prepared) in
                               Some (Inr (next - 1), c\<lparr>co_store := st, co_next := next\<rparr>))))
           | Single rec \<Rightarrow>
               (case prep rec (co_next c) of
                  Inl e \<Rightarrow> Some (Inl (Rejected e), c)
                | Inr p \<Rightarrow>
                    (case app env (co_store c) p of
                       None \<Rightarrow> None
                     | Some (Inl cause) \<Rightarrow>
                         Some (Inl (ErrTerminal cause), c\<lparr>co_terminal := Some cause\<rparr>)
                     | Some (Inr st) \<Rightarrow>
                         Some (Inr (ev_seq p), c\<lparr>co_store := st, co_next := co_next c + 1\<rparr>)))))"

text \<open>\<open>NewWriter\<close>: the capacity check and the first sequence number after the last stored one.\<close>

definition new_core :: "int \<Rightarrow> ('e, int) result \<Rightarrow> 'st \<Rightarrow> ('e option, ('st, 'e) core_state) result" where
  "new_core queue_cap last_seq st =
     (if queue_cap < 1 then Inl None
      else (case last_seq of
              Inl e \<Rightarrow> Inl (Some e)
            | Inr n \<Rightarrow> Inr \<lparr> co_store = st, co_next = n + 1, co_terminal = None \<rparr>))"

section \<open>Callers, queue and loop\<close>

datatype 'e phase =
    Idle
  | Checked submission
  | Queued submission
  | Finished submission "'e ack"

record ('st, 'e) writer =
  wr_core :: "('st, 'e) core_state"
  wr_queue :: "(nat \<times> submission) list"
  wr_cap :: nat
  wr_closing :: bool
  wr_drained :: bool
  wr_acks :: "(nat \<times> submission \<times> 'e ack) list"
  wr_phase :: "nat \<Rightarrow> 'e phase"

definition init_writer :: "nat \<Rightarrow> ('st, 'e) core_state \<Rightarrow> ('st, 'e) writer" where
  "init_writer cap c =
     \<lparr> wr_core = c, wr_queue = [], wr_cap = cap, wr_closing = False, wr_drained = False,
       wr_acks = [], wr_phase = (\<lambda>_. Idle) \<rparr>"

definition ack_of :: "(nat \<times> submission \<times> 'e ack) list \<Rightarrow> nat \<Rightarrow> 'e ack option" where
  "ack_of acks i = map_option (\<lambda>(_, _, a). a) (find (\<lambda>(j, _, _). j = i) acks)"

text \<open>
  The checks of \<open>Submit\<close> and \<open>InitBatch\<close> before the queue: an empty batch, a terminal writer and a
  closing writer are refused at once.
\<close>

definition entry_check :: "('st, 'e) writer \<Rightarrow> submission \<Rightarrow> 'e write_error option" where
  "entry_check w sub =
     (if sub = Batch [] then Some EmptyBatch
      else (case co_terminal (wr_core w) of
              Some cause \<Rightarrow> Some (ErrTerminal cause)
            | None \<Rightarrow> if wr_closing w then Some ErrClosed else None))"

inductive writer_step ::
    "preparer \<Rightarrow> ('env, 'st, 'e) appender \<Rightarrow> ('env, 'st, 'e) batcher
       \<Rightarrow> ('st, 'e) writer \<Rightarrow> ('st, 'e) writer \<Rightarrow> bool"
  for prep app bat where
  step_refuse: "wr_phase w i = Idle \<Longrightarrow> entry_check w sub = Some e \<Longrightarrow>
    writer_step prep app bat w (w\<lparr>wr_phase := (wr_phase w)(i := Finished sub (Inl e))\<rparr>)"
| step_enter: "wr_phase w i = Idle \<Longrightarrow> entry_check w sub = None \<Longrightarrow>
    writer_step prep app bat w (w\<lparr>wr_phase := (wr_phase w)(i := Checked sub)\<rparr>)"
| step_admit: "wr_phase w i = Checked sub \<Longrightarrow> length (wr_queue w) < wr_cap w \<Longrightarrow>
    writer_step prep app bat w
      (w\<lparr>wr_queue := wr_queue w @ [(i, sub)], wr_phase := (wr_phase w)(i := Queued sub)\<rparr>)"
| step_closed: "wr_phase w i = Checked sub \<Longrightarrow> wr_closing w \<Longrightarrow>
    writer_step prep app bat w (w\<lparr>wr_phase := (wr_phase w)(i := Finished sub (Inl ErrClosed))\<rparr>)"
| step_cancel: "wr_phase w i = Checked sub \<Longrightarrow>
    writer_step prep app bat w (w\<lparr>wr_phase := (wr_phase w)(i := Finished sub (Inl CtxErr))\<rparr>)"
| step_process: "\<not> wr_drained w \<Longrightarrow> wr_queue w = (i, sub) # q \<Longrightarrow>
    process prep app bat env sub (wr_core w) = Some (a, c) \<Longrightarrow>
    writer_step prep app bat w
      (w\<lparr>wr_core := c, wr_queue := q, wr_acks := wr_acks w @ [(i, sub, a)]\<rparr>)"
| step_exit: "\<not> wr_drained w \<Longrightarrow> wr_closing w \<Longrightarrow> wr_queue w = [] \<Longrightarrow>
    writer_step prep app bat w (w\<lparr>wr_drained := True\<rparr>)"
| step_return: "wr_phase w i = Queued sub \<Longrightarrow> ack_of (wr_acks w) i = Some a \<Longrightarrow>
    writer_step prep app bat w (w\<lparr>wr_phase := (wr_phase w)(i := Finished sub a)\<rparr>)"
| step_late: "wr_phase w i = Queued sub \<Longrightarrow> wr_drained w \<Longrightarrow> ack_of (wr_acks w) i = None \<Longrightarrow>
    writer_step prep app bat w (w\<lparr>wr_phase := (wr_phase w)(i := Finished sub (Inl ErrClosed))\<rparr>)"
| step_close: "writer_step prep app bat w (w\<lparr>wr_closing := True\<rparr>)"

text \<open>What the loop has committed for a submission it answered.\<close>

fun committed :: "preparer \<Rightarrow> (nat \<times> submission \<times> 'e ack) \<Rightarrow> event list" where
  "committed prep (i, sub, Inl e) = []"
| "committed prep (i, Single rec, Inr seq) = (case prep rec seq of Inl _ \<Rightarrow> [] | Inr p \<Rightarrow> [p])"
| "committed prep (i, Batch recs, Inr seq) =
     (case prepare_batch prep 0 recs of Inl _ \<Rightarrow> [] | Inr ps \<Rightarrow> ps)"

section \<open>The writer over any store\<close>

abbreviation writer_steps where
  "writer_steps prep app bat \<equiv> (writer_step prep app bat)\<^sup>*\<^sup>*"

definition consecutive :: "int \<Rightarrow> event list \<Rightarrow> bool" where
  "consecutive n es \<longleftrightarrow> map ev_seq es = map (\<lambda>k. n + int k) [0..<length es]"

lemma consecutive_Nil [simp]: "consecutive n []"
  by (simp add: consecutive_def)

lemma consecutive_append:
  "consecutive n es \<Longrightarrow> consecutive (n + int (length es)) fs \<Longrightarrow> consecutive n (es @ fs)"
proof -
  assume es: "consecutive n es" and fs: "consecutive (n + int (length es)) fs"
  have "[0..<length (es @ fs)] = [0..<length es] @ map (\<lambda>k. k + length es) [0..<length fs]"
    using upt_add_eq_append [of 0 "length es" "length fs"] by (simp add: map_add_upt add.commute)
  with es fs show ?thesis by (simp add: consecutive_def ac_simps comp_def)
qed

lemma consecutive_nth: "consecutive n es \<Longrightarrow> k < length es \<Longrightarrow> ev_seq (es ! k) = n + int k"
  unfolding consecutive_def
  by (drule arg_cong [of _ _ "\<lambda>xs. xs ! k"]) simp

lemma consecutive_sorted: "consecutive n es \<Longrightarrow> sorted_wrt (<) (map ev_seq es)"
  by (simp add: sorted_wrt_iff_nth_less consecutive_nth)

lemma consecutive_bounds: "consecutive n es \<Longrightarrow> x \<in> set es \<Longrightarrow> n \<le> ev_seq x \<and> ev_seq x < n + int (length es)"
  by (auto simp: in_set_conv_nth consecutive_nth)

locale event_writer = event_store wf log app bat read last stored
  for wf :: "'st \<Rightarrow> bool" and log and app :: "('env, 'st, 'e) appender"
    and bat :: "('env, 'st, 'e) batcher" and read last stored +
  fixes prep :: preparer
  assumes prep_seq: "prep rec seq = Inr p \<Longrightarrow> ev_seq p = seq"
begin

lemma batch_consecutive:
  "prepare_batch prep i recs = Inr ps \<Longrightarrow> consecutive (int (Suc i)) ps"
proof (induction recs arbitrary: i ps)
  case (Cons r recs)
  then obtain p ps' where ps: "prep r (int (Suc i)) = Inr p" "prepare_batch prep (Suc i) recs = Inr ps'"
    "ps = [p] @ ps'"
    by (auto simp: rbind_Inr_iff split: sum.splits)
  have "consecutive (int (Suc i) + int (length [p])) ps'"
    using Cons.IH [OF ps(2)] by (simp add: add.commute)
  moreover have "consecutive (int (Suc i)) [p]"
    using prep_seq [OF ps(1)] by (simp add: consecutive_def)
  ultimately show ?case unfolding ps(3) by (intro consecutive_append)
qed simp

text \<open>The state of the loop after the events \<open>es\<close> were committed on top of the log \<open>l\<close>.\<close>

definition core_at :: "event list \<Rightarrow> int \<Rightarrow> event list \<Rightarrow> ('st, 'e) core_state \<Rightarrow> bool" where
  "core_at l n es c \<longleftrightarrow>
     wf (co_store c) \<and> list_all (\<lambda>x. ev_seq x < n) l \<and>
     log (co_store c) = l @ map stored es \<and> consecutive n es \<and> co_next c = n + int (length es)"

lemma core_at_below:
  assumes "core_at l n es c"
  shows "list_all (\<lambda>x. ev_seq x < co_next c) (log (co_store c))"
  using assms by (auto simp: core_at_def list_all_iff stored_seq dest: consecutive_bounds)

lemma process_core:
  assumes c: "core_at l n es c" and p: "process prep app bat env sub c = Some (a, c')"
  shows "core_at l n (es @ committed prep (i, sub, a)) c'"
proof (cases "co_terminal c")
  case (Some cause)
  with assms show ?thesis by (auto simp: process_def)
next
  case None
  have wf: "wf (co_store c)" and log: "log (co_store c) = l @ map stored es"
    and nxt: "co_next c = n + int (length es)"
    using c by (auto simp: core_at_def)
  show ?thesis
  proof (cases sub)
    case (Single rec)
    consider (same) e where "a = Inl e" "co_store c' = co_store c" "co_next c' = co_next c"
      | (ok) q st where "prep rec (co_next c) = Inr q" "app env (co_store c) q = Some (Inr st)"
        "a = Inr (ev_seq q)" "c' = c\<lparr>co_store := st, co_next := co_next c + 1\<rparr>"
      using p None Single by (auto simp: process_def split: sum.splits option.splits)
    then show ?thesis
    proof cases
      case same
      with c show ?thesis by (simp add: core_at_def)
    next
      case ok
      have q: "ev_seq q = co_next c" using prep_seq [OF ok(1)] .
      have "log st = log (co_store c) @ [stored q]"
        using app_log [OF wf ok(2)] core_at_below [OF c] q by simp
      moreover have "consecutive n (es @ [q])"
        using c q nxt by (intro consecutive_append) (simp_all add: core_at_def consecutive_def)
      ultimately show ?thesis
        using c ok log nxt app_wf [OF wf ok(2)] q Single by (simp add: core_at_def)
    qed
  next
    case (Batch recs)
    consider (same) e where "a = Inl e" "co_store c' = co_store c" "co_next c' = co_next c"
      | (ok) ps st where "co_next c = 1" "prepare_batch prep 0 recs = Inr ps"
        "bat env (co_store c) ps = Some (Inr st)" "a = Inr (co_next c + int (length ps) - 1)"
        "c' = c\<lparr>co_store := st, co_next := co_next c + int (length ps)\<rparr>"
      using p None Batch
      by (auto simp: process_def Let_def split: sum.splits option.splits if_splits)
    then show ?thesis
    proof cases
      case same
      with c show ?thesis by (simp add: core_at_def)
    next
      case ok
      have ps: "consecutive (co_next c) ps"
        using batch_consecutive [OF ok(2)] ok(1) by simp
      have "sorted_wrt (<) (map ev_seq (log (co_store c) @ ps))"
        using log_sorted [OF wf] consecutive_sorted [OF ps] consecutive_bounds [OF ps]
          core_at_below [OF c]
        by (fastforce simp: sorted_wrt_append list_all_iff)
      then have "log st = log (co_store c) @ map stored ps"
        by (rule bat_log [OF wf ok(3)])
      moreover have "consecutive n (es @ ps)"
        using c ps nxt by (intro consecutive_append) (simp_all add: core_at_def)
      ultimately show ?thesis
        using c ok log nxt bat_wf [OF wf ok(3)] ok(2) Batch
        by (simp add: core_at_def)
    qed
  qed
qed

text \<open>The protocol: the loop's state follows its answers, and each answer belongs to one call.\<close>

definition writer_inv :: "event list \<Rightarrow> int \<Rightarrow> ('st, 'e) writer \<Rightarrow> bool" where
  "writer_inv l n w \<longleftrightarrow>
     core_at l n (concat (map (committed prep) (wr_acks w))) (wr_core w) \<and>
     distinct (map fst (wr_queue w) @ map fst (wr_acks w)) \<and>
     (\<forall>i sub. (i, sub) \<in> set (wr_queue w) \<longrightarrow>
        wr_phase w i = Queued sub \<or> wr_drained w \<and> wr_phase w i = Finished sub (Inl ErrClosed)) \<and>
     (\<forall>i sub a. (i, sub, a) \<in> set (wr_acks w) \<longrightarrow>
        wr_phase w i = Queued sub \<or> wr_phase w i = Finished sub a) \<and>
     (\<forall>i sub. wr_phase w i = Queued sub \<longrightarrow>
        (i, sub) \<in> set (wr_queue w) \<or> (\<exists>a. (i, sub, a) \<in> set (wr_acks w))) \<and>
     (\<forall>i sub seq. wr_phase w i = Finished sub (Inr seq) \<longrightarrow> (i, sub, Inr seq) \<in> set (wr_acks w)) \<and>
     length (wr_queue w) \<le> wr_cap w"

lemma writer_invD:
  assumes "writer_inv l n w"
  shows "core_at l n (concat (map (committed prep) (wr_acks w))) (wr_core w)"
    and "distinct (map fst (wr_queue w) @ map fst (wr_acks w))"
    and "(i, sub) \<in> set (wr_queue w) \<Longrightarrow>
      wr_phase w i = Queued sub \<or> wr_drained w \<and> wr_phase w i = Finished sub (Inl ErrClosed)"
    and "(i, sub, a) \<in> set (wr_acks w) \<Longrightarrow> wr_phase w i = Queued sub \<or> wr_phase w i = Finished sub a"
    and "wr_phase w i = Queued sub \<Longrightarrow>
      (i, sub) \<in> set (wr_queue w) \<or> (\<exists>a. (i, sub, a) \<in> set (wr_acks w))"
    and "wr_phase w i = Finished sub (Inr seq) \<Longrightarrow> (i, sub, Inr seq) \<in> set (wr_acks w)"
    and "length (wr_queue w) \<le> wr_cap w"
  using assms unfolding writer_inv_def by blast+

lemma writer_invI:
  assumes "core_at l n (concat (map (committed prep) (wr_acks w))) (wr_core w)"
    and "distinct (map fst (wr_queue w) @ map fst (wr_acks w))"
    and "\<And>i sub. (i, sub) \<in> set (wr_queue w) \<Longrightarrow>
      wr_phase w i = Queued sub \<or> wr_drained w \<and> wr_phase w i = Finished sub (Inl ErrClosed)"
    and "\<And>i sub a. (i, sub, a) \<in> set (wr_acks w) \<Longrightarrow>
      wr_phase w i = Queued sub \<or> wr_phase w i = Finished sub a"
    and "\<And>i sub. wr_phase w i = Queued sub \<Longrightarrow>
      (i, sub) \<in> set (wr_queue w) \<or> (\<exists>a. (i, sub, a) \<in> set (wr_acks w))"
    and "\<And>i sub seq. wr_phase w i = Finished sub (Inr seq) \<Longrightarrow> (i, sub, Inr seq) \<in> set (wr_acks w)"
    and "length (wr_queue w) \<le> wr_cap w"
  shows "writer_inv l n w"
  using assms unfolding writer_inv_def by blast

lemma ack_of_Some:
  "ack_of acks i = Some a \<Longrightarrow> \<exists>sub. (i, sub, a) \<in> set acks"
  by (auto simp: ack_of_def find_Some_iff) (metis nth_mem)

lemma ack_of_None: "ack_of acks i = None \<longleftrightarrow> i \<notin> fst ` set acks"
  by (force simp: ack_of_def find_None_iff)

text \<open>Changing the phase of a call that is neither queued nor answered keeps the invariant.\<close>

lemma writer_inv_phase:
  assumes "writer_inv l n w" "wr_phase w i = Idle \<or> (\<exists>sub. wr_phase w i = Checked sub)"
    and "p = Checked sub \<or> (\<exists>e. p = Finished sub (Inl e))"
  shows "writer_inv l n (w\<lparr>wr_phase := (wr_phase w)(i := p)\<rparr>)"
proof -
  have "(i, s) \<notin> set (wr_queue w)" "(i, s, a) \<notin> set (wr_acks w)" for s a
    using writer_invD(3,4) [OF assms(1), of i] assms(2) by auto
  with assms(1,3) show ?thesis by (auto simp: writer_inv_def split: prod.splits)
qed

lemma writer_inv_step:
  assumes "writer_step prep app bat w w'" "writer_inv l n w"
  shows "writer_inv l n w'"
  using assms
proof (induction)
  case (step_refuse w i sub e)
  then show ?case by (intro writer_inv_phase) auto
next
  case (step_enter w i sub)
  then show ?case by (intro writer_inv_phase) auto
next
  case (step_closed w i sub)
  then show ?case by (intro writer_inv_phase) auto
next
  case (step_cancel w i sub)
  then show ?case by (intro writer_inv_phase) auto
next
  case (step_admit w i sub)
  have fresh: "(i, s) \<notin> set (wr_queue w)" "(i, s, a) \<notin> set (wr_acks w)" for s a
    using writer_invD(3,4) [OF step_admit.prems, of i] step_admit.hyps(1) by auto
  then have "i \<notin> fst ` set (wr_queue w) \<union> fst ` set (wr_acks w)" by auto
  moreover note inv = writer_invD [OF step_admit.prems]
  ultimately show ?case
    using fresh step_admit.hyps(2)
    by (intro writer_invI) (auto split: if_splits dest: inv(3,4,5,6) simp del: split_paired_All)
next
  case (step_process w i sub q env a c)
  have "core_at l n (concat (map (committed prep) (wr_acks w)) @ committed prep (i, sub, a)) c"
    using writer_invD(1) [OF step_process.prems] step_process.hyps(3) by (rule process_core)
  moreover have "wr_phase w i = Queued sub"
    using writer_invD(3) [OF step_process.prems, of i sub] step_process.hyps(1,2) by auto
  moreover note inv = writer_invD [OF step_process.prems]
  moreover have "(j, s) \<in> set q \<or> (\<exists>b. (j, s, b) \<in> set (wr_acks w @ [(i, sub, a)]))"
    if "wr_phase w j = Queued s" for j s
    using inv(5) [OF that] step_process.hyps(2) by auto
  ultimately show ?case
    using step_process.hyps(2) by (intro writer_invI) (auto dest: inv(3,4,6))
next
  case (step_return w i sub a)
  note inv = writer_invD [OF step_return.prems]
  obtain sub' where ack': "(i, sub', a) \<in> set (wr_acks w)" using ack_of_Some [OF step_return.hyps(2)] by blast
  with inv(4) [OF ack'] step_return.hyps(1) have ack: "(i, sub, a) \<in> set (wr_acks w)" by auto
  have own: "s = sub \<and> b = a" if "(i, s, b) \<in> set (wr_acks w)" for s b
  proof -
    have "distinct (map fst (wr_acks w))" using inv(2) by simp
    then have "(s, b) = (sub, a)" using that ack by (rule eq_key_imp_eq_value)
    then show ?thesis by simp
  qed
  show ?case
  proof (rule writer_invI, goal_cases)
    case (3 j s)
    then have "j \<noteq> i" using inv(2) ack by force
    with 3 inv(3) [of j s] show ?case by simp
  next
    case (4 j s b)
    then show ?case using own [of s b] inv(4) [of j s b] by auto
  next
    case (5 j s)
    then show ?case using inv(5) [of j s] by (simp split: if_splits)
  next
    case (6 j s seq)
    then show ?case using ack inv(6) [of j s seq] by (simp split: if_splits)
  qed (use inv(1,2,7) in simp_all)
next
  case (step_late w i sub)
  have "(i, s, a) \<notin> set (wr_acks w)" for s a
    using step_late.hyps(3) by (force simp: ack_of_None)
  moreover have "(i, s) \<in> set (wr_queue w) \<Longrightarrow> s = sub" for s
    using writer_invD(3) [OF step_late.prems, of i s] step_late.hyps(1) by auto
  moreover note inv = writer_invD [OF step_late.prems]
  ultimately show ?case
    using step_late.hyps(2) by (intro writer_invI) (auto split: if_splits dest: inv(3,4,5,6))
qed (auto simp: writer_inv_def)

lemma writer_inv_steps:
  assumes "writer_steps prep app bat w w'" "writer_inv l n w"
  shows "writer_inv l n w'"
  using assms by (induction) (auto intro: writer_inv_step)

lemma writer_inv_init:
  assumes "wf (co_store c)" "list_all (\<lambda>x. ev_seq x < co_next c) (log (co_store c))"
  shows "writer_inv (log (co_store c)) (co_next c) (init_writer cap c)"
  using assms by (simp add: writer_inv_def core_at_def init_writer_def)

text \<open>After \<open>Close\<close> the loop can answer every queued call and stop, if the store answers.\<close>

lemma drain_reaches_exit:
  assumes "\<And>sub c. \<exists>env r. process prep app bat env sub c = Some r"
    and "wr_closing w" "\<not> wr_drained w"
  shows "\<exists>w'. writer_steps prep app bat w w' \<and> wr_drained w' \<and> wr_queue w' = [] \<and>
    fst ` set (wr_acks w') = fst ` set (wr_queue w) \<union> fst ` set (wr_acks w)"
  using assms(2,3)
proof (induction "length (wr_queue w)" arbitrary: w)
  case 0
  then have "writer_step prep app bat w (w\<lparr>wr_drained := True\<rparr>)" by (intro step_exit) auto
  with 0 show ?case by (intro exI [of _ "w\<lparr>wr_drained := True\<rparr>"]) auto
next
  case (Suc k)
  then obtain i sub q where q: "wr_queue w = (i, sub) # q" by (cases "wr_queue w") auto
  obtain env a c where "process prep app bat env sub (wr_core w) = Some (a, c)"
    using assms(1) by (metis surj_pair)
  then have step: "writer_step prep app bat w
      (w\<lparr>wr_core := c, wr_queue := q, wr_acks := wr_acks w @ [(i, sub, a)]\<rparr>)" (is "writer_step _ _ _ w ?w")
    using Suc.prems q by (intro step_process) auto
  have "\<exists>w'. writer_steps prep app bat ?w w' \<and> wr_drained w' \<and> wr_queue w' = [] \<and>
      fst ` set (wr_acks w') = fst ` set (wr_queue ?w) \<union> fst ` set (wr_acks ?w)"
    using Suc q by (intro Suc.hyps(1)) auto
  then obtain w' where w': "writer_steps prep app bat ?w w'" "wr_drained w'" "wr_queue w' = []"
    "fst ` set (wr_acks w') = fst ` set q \<union> fst ` set (wr_acks w @ [(i, sub, a)])"
    by auto
  have "writer_steps prep app bat w w'" using step w'(1) by (rule converse_rtranclp_into_rtranclp)
  with w' q show ?case by (intro exI [of _ w']) auto
qed

end

section \<open>The writer over SQLite\<close>

lemma redact_event_seq: "redact_event red e = Inr e' \<Longrightarrow> ev_seq e' = ev_seq e"
  by (auto simp: redact_event_def Let_def split: option.splits)

lemma prepare_Inr:
  assumes "prepare red schema rec seq = Inr p"
  shows "redact_event red (rec\<lparr>ev_seq := seq\<rparr>) = Inr p" and "ev_seq p = seq"
    and "\<exists>encoded. marshal_event p = Some encoded \<and> validate_record schema encoded = Inr ()"
proof -
  from assms show r: "redact_event red (rec\<lparr>ev_seq := seq\<rparr>) = Inr p"
    and "\<exists>encoded. marshal_event p = Some encoded \<and> validate_record schema encoded = Inr ()"
    by (auto simp: prepare_def rbind_Inr_iff split: option.splits)
  from redact_event_seq [OF r] show "ev_seq p = seq" by simp
qed

interpretation sqlite_writer: event_writer table_wf table_log sqlite_append sqlite_append_batch
  sqlite_read_from sqlite_last_seq sqlite_stored "prepare red schema" for red schema
  by unfold_locales (rule prepare_Inr(2))

abbreviation log_steps where
  "log_steps red schema \<equiv> writer_steps (prepare red schema) sqlite_append sqlite_append_batch"

definition open_core :: "table \<Rightarrow> (table, store_error) core_state" where
  "open_core t = \<lparr> co_store = t, co_next = (if t = [] then 0 else Max (ev_seq ` set t)) + 1, co_terminal = None \<rparr>"

lemma open_core_new:
  "sqlite_last_seq [(None, False)] t = Some r \<Longrightarrow> 1 \<le> cap \<Longrightarrow> new_core cap r t = Inr (open_core t)"
  by (auto simp: sqlite_last_seq_def new_core_def open_core_def)

lemma open_core_below:
  "list_all (\<lambda>x. ev_seq x < co_next (open_core t)) (table_log (co_store (open_core t)))"
proof -
  have "ev_seq x < Max (ev_seq ` set t) + 1" if "x \<in> set t" for x
    using that Max_ge [of "ev_seq ` set t" "ev_seq x"] by simp
  then show ?thesis by (auto simp: open_core_def table_log_def list_all_iff)
qed

lemma open_writer_inv:
  assumes "table_wf t" "log_steps red schema (init_writer cap (open_core t)) w"
  shows "sqlite_writer.writer_inv red schema (table_log t) (co_next (open_core t)) w"
proof -
  have "sqlite_writer.writer_inv red schema (table_log (co_store (open_core t))) (co_next (open_core t))
      (init_writer cap (open_core t))"
    using assms(1) open_core_below by (intro sqlite_writer.writer_inv_init) (simp_all add: open_core_def)
  then show ?thesis
    using sqlite_writer.writer_inv_steps [OF assms(2)] by (simp add: open_core_def)
qed

lemma sqlite_answers:
  "\<exists>r. process (prepare red schema) sqlite_append sqlite_append_batch [(None, False)] sub c = Some r"
  by (auto simp: process_def sqlite_append_def sqlite_append_batch_def Let_def
      split: option.splits submission.splits sum.splits prod.splits)

lemma terminal_step:
  assumes "writer_step prep app bat w w'" "co_terminal (wr_core w) = Some cause"
  shows "wr_core w' = wr_core w"
  using assms by (induction) (auto simp: process_def)

lemma terminal_steps:
  assumes "writer_steps prep app bat w w'" "co_terminal (wr_core w) = Some cause"
  shows "wr_core w' = wr_core w"
  using assms by (induction) (auto dest: terminal_step)

lemma terminal_acks_step:
  assumes "writer_step prep app bat w w'" "co_terminal (wr_core w) = Some cause"
  shows "\<exists>new. wr_acks w' = wr_acks w @ new \<and> list_all (\<lambda>(_, _, a). a = Inl (ErrTerminal cause)) new"
  using assms by (induction) (auto simp: process_def)

lemma terminal_acks_steps:
  assumes "writer_steps prep app bat w w'" "co_terminal (wr_core w) = Some cause"
  shows "\<exists>new. wr_acks w' = wr_acks w @ new \<and> list_all (\<lambda>(_, _, a). a = Inl (ErrTerminal cause)) new"
  using assms
proof (induction)
  case (step v w')
  then obtain new where "wr_acks v = wr_acks w @ new" "list_all (\<lambda>(_, _, a). a = Inl (ErrTerminal cause)) new"
    by blast
  moreover have "co_terminal (wr_core v) = Some cause"
    using terminal_steps [OF step.hyps(1) step.prems] step.prems by simp
  then obtain more where "wr_acks w' = wr_acks v @ more"
    "list_all (\<lambda>(_, _, a). a = Inl (ErrTerminal cause)) more"
    using terminal_acks_step [OF step.hyps(2)] by blast
  ultimately show ?case by (intro exI [of _ "new @ more"]) simp
qed simp

end
