(* ===== verification/Log_Properties.thy ===== *)
theory Log_Properties
  imports Log_Writer
begin

text \<open>
  What the append-only writer of \<open>core/logd/writer.go\<close> promises its callers when its store is the
  SQLite store of \<open>seams/store/sqlite\<close>. The properties hold for every interleaving of callers, loop
  and \<open>Close\<close>; a concrete run of one submission instantiates their hypotheses.
\<close>

section \<open>A concrete run\<close>

definition plain_redactor :: redactor where
  "plain_redactor = \<lparr> rd_passes = [], rd_literals = [], rd_max_literal = 0 \<rparr>"

definition any_schema :: "string \<Rightarrow> string option" where
  "any_schema data = None"

definition turn_event :: event where
  "turn_event =
     \<lparr> ev_seq = 0, ev_ts = 7, ev_trace_id = ''t'', ev_span_id = ''s'', ev_parent_span_id = None,
       ev_kind = kind_turn_start, ev_actor = ''parent'', ev_payload = ''{}'', ev_raw = Some [],
       ev_usage_in = None, ev_usage_out = None \<rparr>"

definition run_core :: "(table, store_error) core_state" where
  "run_core = \<lparr> co_store = [turn_event\<lparr>ev_seq := 1\<rparr>], co_next = 2, co_terminal = None \<rparr>"

text \<open>An event whose payload is already compact JSON passes the pipeline unchanged.\<close>

lemma prepare_plain:
  assumes "parses 1 (ev_payload rec) v" "marshal_raw (ev_payload rec) = Some (ev_payload rec)"
    and "ev_raw rec = None \<or> ev_raw rec = Some []" "utf8_sanitize (ev_kind rec) \<noteq> ''subagent/spawn''"
  shows "prepare plain_redactor any_schema rec seq = Inr (rec\<lparr>ev_seq := seq\<rparr>)"
proof -
  let ?r = "rec\<lparr>ev_seq := seq\<rparr>"
  have "redact_event plain_redactor ?r = Inr ?r"
    using assms(3)
    by (auto simp: redact_event_def redact_bytes_def plain_redactor_def b64_decode_def Let_def)
  moreover have "marshal_event ?r = Some (print_object (event_fields ?r (ev_payload rec)))"
    using assms(2) by (simp add: marshal_event_def)
  moreover have "decode_envelope (print_object (event_fields ?r (ev_payload rec))) =
      Some (utf8_sanitize (ev_kind ?r), ev_payload rec)"
    by (rule envelope_of_event [OF assms(1)]) (simp add: max_nesting_def)
  ultimately show ?thesis
    using assms(4) by (simp add: prepare_def validate_record_def any_schema_def rmap_error_def)
qed

lemma run_process:
  "process (prepare plain_redactor any_schema) sqlite_append sqlite_append_batch [(None, False)]
     (Single turn_event) (open_core []) = Some (Inr 1, run_core)"
proof -
  have "utf8_sanitize (ev_kind turn_event) \<noteq> ''subagent/spawn''"
    by (simp add: turn_event_def kind_turn_start_def utf8_sanitize_ascii_id is_ascii_def)
  then have "prepare plain_redactor any_schema turn_event 1 = Inr (turn_event\<lparr>ev_seq := 1\<rparr>)"
    by (intro prepare_plain [of _ "JObj []"]) (simp_all add: turn_event_def marshal_raw_empty_object
        empty_object_parses [simplified])
  then show ?thesis
    by (simp add: process_def open_core_def sqlite_append_def decode_raw_def turn_event_def
        b64_decode_def sql_insert_def insert_args_def run_core_def)
qed

definition run_queued :: "(table, store_error) writer" where
  "run_queued =
     \<lparr> wr_core = open_core [], wr_queue = [(0, Single turn_event)], wr_cap = 2, wr_closing = True,
       wr_drained = False, wr_acks = [], wr_phase = (\<lambda>_. Idle)(0 := Queued (Single turn_event)) \<rparr>"

definition run_done :: "(table, store_error) writer" where
  "run_done =
     \<lparr> wr_core = run_core, wr_queue = [], wr_cap = 2, wr_closing = True, wr_drained = False,
       wr_acks = [(0, Single turn_event, Inr 1)],
       wr_phase = (\<lambda>_. Idle)(0 := Finished (Single turn_event) (Inr 1)) \<rparr>"

lemma run_steps_queued:
  "log_steps plain_redactor any_schema (init_writer 2 (open_core [])) run_queued"
proof -
  let ?step = "writer_step (prepare plain_redactor any_schema) sqlite_append sqlite_append_batch"
  define w1 where "w1 = (init_writer 2 (open_core []) :: (table, store_error) writer)
    \<lparr>wr_phase := (\<lambda>_. Idle)(0 := Checked (Single turn_event))\<rparr>"
  define w2 where "w2 = w1\<lparr>wr_queue := [(0, Single turn_event)],
    wr_phase := (\<lambda>_. Idle)(0 := Queued (Single turn_event))\<rparr>"
  have "?step (init_writer 2 (open_core [])) w1"
    using step_enter [of "init_writer 2 (open_core [])" 0 "Single turn_event"]
    by (simp add: w1_def init_writer_def entry_check_def open_core_def)
  moreover have "?step w1 w2"
    using step_admit [of w1 0 "Single turn_event"] by (simp add: w1_def w2_def init_writer_def)
  moreover have "?step w2 run_queued"
    using step_close [of _ _ _ w2] by (simp add: w2_def w1_def run_queued_def init_writer_def)
  ultimately show ?thesis by (meson converse_rtranclp_into_rtranclp rtranclp.rtrancl_refl)
qed

lemma run_steps_done: "log_steps plain_redactor any_schema run_queued run_done"
proof -
  let ?step = "writer_step (prepare plain_redactor any_schema) sqlite_append sqlite_append_batch"
  define w where "w = run_queued\<lparr>wr_core := run_core, wr_queue := [],
    wr_acks := wr_acks run_queued @ [(0, Single turn_event, Inr 1)]\<rparr>"
  have "wr_core run_queued = open_core []" by (simp add: run_queued_def)
  then have "?step run_queued w"
    unfolding w_def using run_process
    by (intro step_process) (simp_all add: run_queued_def)
  moreover have "?step w run_done"
    using step_return [of w 0 "Single turn_event" "Inr 1"]
    by (simp add: w_def run_queued_def run_done_def ack_of_def)
  ultimately show ?thesis by (meson converse_rtranclp_into_rtranclp rtranclp.rtrancl_refl)
qed

lemma run_steps: "log_steps plain_redactor any_schema (init_writer 2 (open_core [])) run_done"
  using run_steps_queued run_steps_done by (rule rtranclp_trans)

section \<open>Properties\<close>

text \<open>
  C9. The log is append-only and its sequence numbers have no gap. Whatever the callers, the loop and
  \<open>Close\<close> do, the stored log is the log at opening followed by exactly the events of the submissions
  that were answered with success, in the order of the answers, numbered consecutively from the
  number after the last one stored.
\<close>

theorem log_append_only:
  assumes "table_wf t" and "log_steps red schema (init_writer cap (open_core t)) w"
  shows "\<exists>es. es = concat (map (committed (prepare red schema)) (wr_acks w)) \<and>
    table_log (co_store (wr_core w)) = table_log t @ map sqlite_stored es \<and>
    consecutive (co_next (open_core t)) es \<and>
    co_next (wr_core w) = co_next (open_core t) + int (length es)"
  using sqlite_writer.writer_invD(1) [OF open_writer_inv [OF assms]]
  by (auto simp: sqlite_writer.core_at_def)

theorem log_append_only_witness:
  "\<exists>es. es = concat (map (committed (prepare plain_redactor any_schema)) (wr_acks run_done)) \<and>
     table_log (co_store (wr_core run_done)) = table_log [] @ map sqlite_stored es \<and>
     consecutive (co_next (open_core [])) es"
  using log_append_only [OF _ run_steps] by (auto simp: table_wf_def)




definition failed_writer :: "(table, store_error) writer" where
  "failed_writer = run_queued\<lparr>wr_core := run_core\<lparr>co_terminal := Some ContextDone\<rparr>\<rparr>"




end
