(* ===== verification/Replay.thy ===== *)
theory Replay
  imports Events
begin

text \<open>
  The projection of an event log (\<open>core/logd/replay.go\<close>): the derived state, \<open>Replay\<close> with its checked
  sums, and what a successful replay says about the log.

  The totals are 64-bit words, so that the overflow check of \<open>addUsage\<close> is the one of the code. The
  two blocks of \<open>Replay\<close> for the input and the output counts are one definition over the field.
\<close>

section \<open>Derived state\<close>

record token_usage =
  tu_in :: i64
  tu_out :: i64

datatype role = RoleUser | RoleAssistant | RoleToolCall | RoleToolResult | RoleSubagentResult

record message =
  ms_seq :: int
  ms_role :: role
  ms_span_id :: string
  ms_content :: string

record derived_state =
  ds_trace_id :: string
  ds_root_span :: string
  ds_last_seq :: int
  ds_origin :: "fork_payload option"
  ds_messages :: "message list"
  ds_usage :: token_usage
  ds_by_actor :: "string \<rightharpoonup> token_usage"
  ds_by_span :: "string \<rightharpoonup> token_usage"
  ds_by_span_actor :: "string \<rightharpoonup> (string \<rightharpoonup> token_usage)"
  ds_turns :: nat
  ds_steps :: nat
  ds_spawns :: nat
  ds_ended :: bool

section \<open>Checked sums\<close>

datatype usage_cause = NegativeUsage i64 | UsageOverflow i64 i64

definition max_i64 :: i64 where
  "max_i64 = 0x7FFFFFFFFFFFFFFF"

definition add_usage :: "i64 \<Rightarrow> i64 \<Rightarrow> (usage_cause, i64) result" where
  "add_usage tot v =
     (if v <s 0 then Inl (NegativeUsage v)
      else if max_i64 - v <s tot then Inl (UsageOverflow tot v)
      else Inr (tot + v))"

datatype usage_field = UsageIn | UsageOut

fun get_usage :: "usage_field \<Rightarrow> token_usage \<Rightarrow> i64" where
  "get_usage UsageIn u = tu_in u"
| "get_usage UsageOut u = tu_out u"

fun set_usage :: "usage_field \<Rightarrow> i64 \<Rightarrow> token_usage \<Rightarrow> token_usage" where
  "set_usage UsageIn v u = u\<lparr>tu_in := v\<rparr>"
| "set_usage UsageOut v u = u\<lparr>tu_out := v\<rparr>"

fun event_usage :: "usage_field \<Rightarrow> event \<Rightarrow> i64 option" where
  "event_usage UsageIn e = ev_usage_in e"
| "event_usage UsageOut e = ev_usage_out e"

definition no_usage :: token_usage where
  "no_usage = \<lparr> tu_in = 0, tu_out = 0 \<rparr>"

text \<open>Reading a missing key of a Go map gives the zero value.\<close>

definition usage_at :: "(string \<rightharpoonup> token_usage) \<Rightarrow> string \<Rightarrow> token_usage" where
  "usage_at m k = (case m k of None \<Rightarrow> no_usage | Some u \<Rightarrow> u)"

definition actors_at :: "(string \<rightharpoonup> (string \<rightharpoonup> token_usage)) \<Rightarrow> string \<Rightarrow> (string \<rightharpoonup> token_usage)" where
  "actors_at m k = (case m k of None \<Rightarrow> Map.empty | Some x \<Rightarrow> x)"

section \<open>Replay\<close>

datatype usage_site = InTotal | OfActor string | OfSpan string | OfSpanActor string string

datatype replay_error =
    EmptySequence
  | SeqOrder int int
  | MixedTrace string string
  | UsageError int usage_field usage_site usage_cause
  | BadForkPayload int

definition count_usage ::
    "usage_field \<Rightarrow> event \<Rightarrow> i64 \<Rightarrow> derived_state \<Rightarrow> (replay_error, derived_state) result" where
  "count_usage fld e v s =
     (let err = (\<lambda>site. UsageError (ev_seq e) fld site);
          u = usage_at (ds_by_actor s) (ev_actor e);
          spu = usage_at (ds_by_span s) (ev_span_id e);
          by_actor = actors_at (ds_by_span_actor s) (ev_span_id e);
          asu = usage_at by_actor (ev_actor e) in
      rbind (rmap_error (err InTotal) (add_usage (get_usage fld (ds_usage s)) v)) (\<lambda>tot.
      rbind (rmap_error (err (OfActor (ev_actor e))) (add_usage (get_usage fld u) v)) (\<lambda>a.
      rbind (rmap_error (err (OfSpan (ev_span_id e))) (add_usage (get_usage fld spu) v)) (\<lambda>sp.
      rbind (rmap_error (err (OfSpanActor (ev_span_id e) (ev_actor e))) (add_usage (get_usage fld asu) v)) (\<lambda>sa.
        Inr (s\<lparr>ds_usage := set_usage fld tot (ds_usage s),
               ds_by_actor := (ds_by_actor s)(ev_actor e \<mapsto> set_usage fld a u),
               ds_by_span := (ds_by_span s)(ev_span_id e \<mapsto> set_usage fld sp spu),
               ds_by_span_actor := (ds_by_span_actor s)
                 (ev_span_id e \<mapsto> by_actor(ev_actor e \<mapsto> set_usage fld sa asu))\<rparr>))))))"

definition count_field ::
    "usage_field \<Rightarrow> event \<Rightarrow> derived_state \<Rightarrow> (replay_error, derived_state) result" where
  "count_field fld e s =
     (case event_usage fld e of None \<Rightarrow> Inr s | Some v \<Rightarrow> count_usage fld e v s)"

definition append_message :: "derived_state \<Rightarrow> event \<Rightarrow> role \<Rightarrow> derived_state" where
  "append_message s e role =
     (if role \<noteq> RoleSubagentResult \<and> ev_span_id e \<noteq> ds_root_span s then s
      else s\<lparr>ds_messages := ds_messages s @
        [\<lparr> ms_seq = ev_seq e, ms_role = role, ms_span_id = ev_span_id e, ms_content = ev_payload e \<rparr>]\<rparr>)"

definition apply_kind :: "event \<Rightarrow> derived_state \<Rightarrow> (replay_error, derived_state) result" where
  "apply_kind e s =
     (let k = ev_kind e in
      if k = kind_session_fork then
        (case unmarshal_fork (ev_payload e) of
           None \<Rightarrow> Inl (BadForkPayload (ev_seq e))
         | Some p \<Rightarrow> Inr (if ds_origin s = None then s\<lparr>ds_origin := Some p\<rparr> else s))
      else if k = kind_session_end then Inr (s\<lparr>ds_ended := True\<rparr>)
      else if k = kind_turn_start then Inr (s\<lparr>ds_turns := Suc (ds_turns s)\<rparr>)
      else if k = kind_step_start then Inr (s\<lparr>ds_steps := Suc (ds_steps s)\<rparr>)
      else if k = kind_subagent_spawn then Inr (s\<lparr>ds_spawns := Suc (ds_spawns s)\<rparr>)
      else if k = kind_user_message then Inr (append_message s e RoleUser)
      else if k = kind_assistant_message then Inr (append_message s e RoleAssistant)
      else if k = kind_tool_call then Inr (append_message s e RoleToolCall)
      else if k = kind_tool_result then Inr (append_message s e RoleToolResult)
      else if k = kind_subagent_done then Inr (append_message s e RoleSubagentResult)
      else Inr s)"

definition replay_step ::
    "int \<times> derived_state \<Rightarrow> event \<Rightarrow> (replay_error, int \<times> derived_state) result" where
  "replay_step ps e =
     (let (prev, s) = ps in
      if ev_seq e \<le> prev then Inl (SeqOrder prev (ev_seq e))
      else if ev_trace_id e \<noteq> ds_trace_id s then Inl (MixedTrace (ds_trace_id s) (ev_trace_id e))
      else rbind (count_field UsageIn e (s\<lparr>ds_last_seq := ev_seq e\<rparr>)) (\<lambda>s1.
           rbind (count_field UsageOut e s1) (\<lambda>s2.
           rbind (apply_kind e s2) (\<lambda>s3. Inr (ev_seq e, s3)))))"

definition initial_state :: "event \<Rightarrow> derived_state" where
  "initial_state e =
     \<lparr> ds_trace_id = ev_trace_id e, ds_root_span = ev_span_id e, ds_last_seq = 0, ds_origin = None,
       ds_messages = [], ds_usage = no_usage, ds_by_actor = Map.empty, ds_by_span = Map.empty,
       ds_by_span_actor = Map.empty, ds_turns = 0, ds_steps = 0, ds_spawns = 0, ds_ended = False \<rparr>"

definition replay :: "event list \<Rightarrow> (replay_error, derived_state) result" where
  "replay events =
     (case events of
        [] \<Rightarrow> Inl EmptySequence
      | e # _ \<Rightarrow> rbind (rfold replay_step (0, initial_state e) events) (\<lambda>(_, s). Inr s))"

definition derive_messages :: "event list \<Rightarrow> (replay_error, message list) result" where
  "derive_messages events = rbind (replay events) (\<lambda>s. Inr (ds_messages s))"

section \<open>Exact sums\<close>

text \<open>One counted usage: the actor, the span and the value.\<close>

type_synonym charge = "string \<times> string \<times> i64"

definition weight :: "charge list \<Rightarrow> int" where
  "weight cs = (\<Sum>(a, sp, v)\<leftarrow>cs. sint v)"

definition charges :: "usage_field \<Rightarrow> event list \<Rightarrow> charge list" where
  "charges fld es =
     concat (map (\<lambda>e. case event_usage fld e of
                        None \<Rightarrow> [] | Some v \<Rightarrow> [(ev_actor e, ev_span_id e, v)]) es)"

definition no_debt :: "charge list \<Rightarrow> bool" where
  "no_debt cs = list_all (\<lambda>(a, sp, v). 0 \<le> sint v) cs"

lemma weight_simps [simp]:
  "weight [] = 0" "weight (c # cs) = sint (snd (snd c)) + weight cs"
  "weight (cs @ ds) = weight cs + weight ds"
  by (auto simp: weight_def split_beta)

lemma charges_append [simp]: "charges fld (es @ fs) = charges fld es @ charges fld fs"
  by (simp add: charges_def)

lemma charges_Nil [simp]: "charges fld [] = []"
  by (simp add: charges_def)

lemma charges_single:
  "charges fld [e] =
     (case event_usage fld e of None \<Rightarrow> [] | Some v \<Rightarrow> [(ev_actor e, ev_span_id e, v)])"
  by (simp add: charges_def)

lemma no_debt_simps [simp]:
  "no_debt []" "no_debt (c # cs) \<longleftrightarrow> 0 \<le> sint (snd (snd c)) \<and> no_debt cs"
  "no_debt (cs @ ds) \<longleftrightarrow> no_debt cs \<and> no_debt ds"
  by (auto simp: no_debt_def split_beta)

lemma weight_nonneg: "no_debt cs \<Longrightarrow> 0 \<le> weight cs"
  by (induction cs) auto

lemma weight_filter_le: "no_debt cs \<Longrightarrow> weight (filter P cs) \<le> weight cs"
  by (induction cs) auto

lemma sint_max_i64: "sint max_i64 = max_int64"
  by (simp add: max_i64_def max_int64_def)

lemma sint_le_max: "sint (v :: i64) \<le> max_int64"
  using sint_range_size [of v] by (simp add: max_int64_def size_word.rep_eq)

lemma min_le_sint: "min_int64 \<le> sint (v :: i64)"
  using sint_range_size [of v] by (simp add: min_int64_def size_word.rep_eq)

lemma sint_fits:
  fixes a b :: i64
  shows "min_int64 \<le> sint a + sint b \<Longrightarrow> sint a + sint b \<le> max_int64 \<Longrightarrow> sint (a + b) = sint a + sint b"
    and "min_int64 \<le> sint a - sint b \<Longrightarrow> sint a - sint b \<le> max_int64 \<Longrightarrow> sint (a - b) = sint a - sint b"
  by (simp_all add: sint_word_ariths signed_take_bit_int_eq_self min_int64_def max_int64_def)

lemma add_usage_eq:
  assumes "0 \<le> sint tot"
  shows "add_usage tot v =
     (if sint v < 0 then Inl (NegativeUsage v)
      else if max_int64 < sint tot + sint v then Inl (UsageOverflow tot v)
      else Inr (tot + v))"
proof (cases "sint v < 0")
  case False
  have "sint (max_i64 - v) = max_int64 - sint v"
    using False sint_le_max [of v] sint_max_i64
    by (subst sint_fits(2)) (auto simp: min_int64_def max_int64_def)
  with False show ?thesis by (auto simp: add_usage_def word_sless_alt)
qed (simp add: add_usage_def word_sless_alt)

lemma add_usage_Inr_iff:
  assumes "0 \<le> sint tot"
  shows "add_usage tot v = Inr w \<longleftrightarrow>
    0 \<le> sint v \<and> sint tot + sint v \<le> max_int64 \<and> w = tot + v"
  using assms by (auto simp: add_usage_eq)

text \<open>The projection of the usages agrees with the charges counted so far, per field.\<close>

definition sums_at :: "(usage_field \<Rightarrow> charge list) \<Rightarrow> derived_state \<Rightarrow> bool" where
  "sums_at cs s \<longleftrightarrow> (\<forall>fld.
     no_debt (cs fld) \<and>
     sint (get_usage fld (ds_usage s)) = weight (cs fld) \<and>
     (\<forall>a. sint (get_usage fld (usage_at (ds_by_actor s) a)) = weight [c \<leftarrow> cs fld. fst c = a]) \<and>
     (\<forall>sp. sint (get_usage fld (usage_at (ds_by_span s) sp)) = weight [c \<leftarrow> cs fld. fst (snd c) = sp]) \<and>
     (\<forall>sp a. sint (get_usage fld (usage_at (actors_at (ds_by_span_actor s) sp) a)) =
        weight [c \<leftarrow> cs fld. fst (snd c) = sp \<and> fst c = a]))"

lemma sums_atD:
  assumes "sums_at cs s"
  shows "no_debt (cs fld)" "sint (get_usage fld (ds_usage s)) = weight (cs fld)"
    "sint (get_usage fld (usage_at (ds_by_actor s) a)) = weight [c \<leftarrow> cs fld. fst c = a]"
    "sint (get_usage fld (usage_at (ds_by_span s) sp)) = weight [c \<leftarrow> cs fld. fst (snd c) = sp]"
    "sint (get_usage fld (usage_at (actors_at (ds_by_span_actor s) sp) a)) =
       weight [c \<leftarrow> cs fld. fst (snd c) = sp \<and> fst c = a]"
  using assms by (auto simp: sums_at_def)

lemma get_set_usage [simp]:
  "get_usage fld (set_usage fld' v u) = (if fld = fld' then v else get_usage fld u)"
  by (cases fld; cases fld') auto

lemma usage_at_upd [simp]: "usage_at (m(k \<mapsto> u)) k' = (if k' = k then u else usage_at m k')"
  by (simp add: usage_at_def)

lemma actors_at_upd [simp]: "actors_at (m(k \<mapsto> u)) k' = (if k' = k then u else actors_at m k')"
  by (simp add: actors_at_def)

lemma sums_at_cong:
  "sums_at cs s \<Longrightarrow> ds_usage s' = ds_usage s \<Longrightarrow> ds_by_actor s' = ds_by_actor s \<Longrightarrow>
    ds_by_span s' = ds_by_span s \<Longrightarrow> ds_by_span_actor s' = ds_by_span_actor s \<Longrightarrow> sums_at cs s'"
  by (simp add: sums_at_def)

lemma sums_at_last_seq [simp]: "sums_at cs (s\<lparr>ds_last_seq := n\<rparr>) \<longleftrightarrow> sums_at cs s"
  by (simp add: sums_at_def)

definition counted :: "usage_field \<Rightarrow> event \<Rightarrow> i64 \<Rightarrow> derived_state \<Rightarrow> derived_state" where
  "counted fld e v s =
     (let add = (\<lambda>u. set_usage fld (get_usage fld u + v) u);
          by_actor = actors_at (ds_by_span_actor s) (ev_span_id e) in
      s\<lparr>ds_usage := add (ds_usage s),
        ds_by_actor := (ds_by_actor s)(ev_actor e \<mapsto> add (usage_at (ds_by_actor s) (ev_actor e))),
        ds_by_span := (ds_by_span s)(ev_span_id e \<mapsto> add (usage_at (ds_by_span s) (ev_span_id e))),
        ds_by_span_actor := (ds_by_span_actor s)
          (ev_span_id e \<mapsto> by_actor(ev_actor e \<mapsto> add (usage_at by_actor (ev_actor e))))\<rparr>)"

lemma part_bounds:
  assumes "sums_at cs s"
  shows "0 \<le> weight (filter P (cs fld))" "weight (filter P (cs fld)) \<le> weight (cs fld)"
proof -
  have "no_debt (filter P (cs fld))"
    using sums_atD(1) [OF assms, of fld] by (simp add: no_debt_def list_all_iff)
  then show "0 \<le> weight (filter P (cs fld))" by (rule weight_nonneg)
  show "weight (filter P (cs fld)) \<le> weight (cs fld)"
    using sums_atD(1) [OF assms] by (rule weight_filter_le)
qed

text \<open>
  A part of the charges never exceeds all of them, so the check of the total decides: the checks
  per actor and per span never fail on their own.
\<close>

lemma count_usage_eq:
  assumes "sums_at cs s"
  shows "count_usage fld e v s =
     (if sint v < 0 then Inl (UsageError (ev_seq e) fld InTotal (NegativeUsage v))
      else if max_int64 < weight (cs fld) + sint v
        then Inl (UsageError (ev_seq e) fld InTotal (UsageOverflow (get_usage fld (ds_usage s)) v))
      else Inr (counted fld e v s))"
proof -
  note at = sums_atD [OF assms] and part = part_bounds [OF assms]
  have 1: "0 \<le> sint (get_usage fld (ds_usage s))"
    by (simp add: at(2) weight_nonneg [OF at(1)])
  have 2: "0 \<le> sint (get_usage fld (usage_at (ds_by_actor s) (ev_actor e)))"
    "0 \<le> sint (get_usage fld (usage_at (ds_by_span s) (ev_span_id e)))"
    "0 \<le> sint (get_usage fld (usage_at (actors_at (ds_by_span_actor s) (ev_span_id e)) (ev_actor e)))"
    by (simp_all only: at part)
  have 3: "sint (get_usage fld (usage_at (ds_by_actor s) (ev_actor e))) \<le> weight (cs fld)"
    "sint (get_usage fld (usage_at (ds_by_span s) (ev_span_id e))) \<le> weight (cs fld)"
    "sint (get_usage fld (usage_at (actors_at (ds_by_span_actor s) (ev_span_id e)) (ev_actor e))) \<le> weight (cs fld)"
    by (simp_all only: at part)
  consider "sint v < 0" | "\<not> sint v < 0" "max_int64 < weight (cs fld) + sint v"
    | "\<not> sint v < 0" "\<not> max_int64 < weight (cs fld) + sint v" by blast
  then show ?thesis
    by cases (use 3 in \<open>simp_all add: count_usage_def Let_def add_usage_eq [OF 1] add_usage_eq [OF 2(1)]
      add_usage_eq [OF 2(2)] add_usage_eq [OF 2(3)] at(2) rmap_error_def counted_def\<close>)
qed

lemma sint_add_part:
  fixes x v :: i64
  assumes "0 \<le> sint x" "0 \<le> sint v" "sint x + sint v \<le> max_int64"
  shows "sint (x + v) = sint x + sint v"
  using assms by (intro sint_fits(1)) (auto simp: min_int64_def)

lemma counted_sums:
  assumes "sums_at cs s" "0 \<le> sint v" "weight (cs fld) + sint v \<le> max_int64"
  shows "sums_at (cs(fld := cs fld @ [(ev_actor e, ev_span_id e, v)])) (counted fld e v s)"
proof -
  note at = sums_atD [OF assms(1)] and part = part_bounds [OF assms(1)]
  have add: "sint (x + v) = sint x + sint v" if "sint x = weight (filter P (cs fld))" for x P
    using part [of P fld] assms(2,3) that by (intro sint_add_part) auto
  have tot: "sint (get_usage fld (ds_usage s) + v) = weight (cs fld) + sint v"
    using assms(2,3) at(2) weight_nonneg [OF at(1)] by (subst sint_add_part) auto
  show ?thesis
    unfolding sums_at_def
    by (auto simp: counted_def Let_def at tot assms(2) add [OF at(3)] add [OF at(4)] add [OF at(5)])
qed

lemma counted_keeps [simp]:
  "ds_trace_id (counted fld e v s) = ds_trace_id s" "ds_root_span (counted fld e v s) = ds_root_span s"
  "ds_last_seq (counted fld e v s) = ds_last_seq s" "ds_origin (counted fld e v s) = ds_origin s"
  "ds_messages (counted fld e v s) = ds_messages s" "ds_turns (counted fld e v s) = ds_turns s"
  "ds_steps (counted fld e v s) = ds_steps s" "ds_spawns (counted fld e v s) = ds_spawns s"
  "ds_ended (counted fld e v s) = ds_ended s"
  by (simp_all add: counted_def Let_def)

section \<open>What a replay projects\<close>

definition visible_role :: "string \<Rightarrow> role option" where
  "visible_role k =
     (if k = kind_user_message then Some RoleUser
      else if k = kind_assistant_message then Some RoleAssistant
      else if k = kind_tool_call then Some RoleToolCall
      else if k = kind_tool_result then Some RoleToolResult
      else if k = kind_subagent_done then Some RoleSubagentResult
      else None)"

text \<open>The history of the parent model: its own span, and of its children only the final results.\<close>

definition history :: "string \<Rightarrow> event list \<Rightarrow> message list" where
  "history root es =
     concat (map (\<lambda>e. case visible_role (ev_kind e) of
         None \<Rightarrow> []
       | Some r \<Rightarrow>
           if r = RoleSubagentResult \<or> ev_span_id e = root
           then [\<lparr> ms_seq = ev_seq e, ms_role = r, ms_span_id = ev_span_id e, ms_content = ev_payload e \<rparr>]
           else []) es)"

definition of_kind :: "string \<Rightarrow> event list \<Rightarrow> event list" where
  "of_kind k es = filter (\<lambda>e. ev_kind e = k) es"

definition origin_of :: "event list \<Rightarrow> fork_payload option" where
  "origin_of es = (case of_kind kind_session_fork es of [] \<Rightarrow> None | e # _ \<Rightarrow> unmarshal_fork (ev_payload e))"

definition last_seq_of :: "event list \<Rightarrow> int" where
  "last_seq_of es = (if es = [] then 0 else ev_seq (last es))"

definition projects :: "event \<Rightarrow> event list \<Rightarrow> derived_state \<Rightarrow> bool" where
  "projects e0 es s \<longleftrightarrow>
     ds_trace_id s = ev_trace_id e0 \<and> ds_root_span s = ev_span_id e0 \<and>
     ds_last_seq s = last_seq_of es \<and>
     ds_origin s = origin_of es \<and>
     ds_messages s = history (ev_span_id e0) es \<and>
     sums_at (\<lambda>fld. charges fld es) s \<and>
     ds_turns s = length (of_kind kind_turn_start es) \<and>
     ds_steps s = length (of_kind kind_step_start es) \<and>
     ds_spawns s = length (of_kind kind_subagent_spawn es) \<and>
     (ds_ended s \<longleftrightarrow> of_kind kind_session_end es \<noteq> [])"

definition readable_fork :: "event \<Rightarrow> bool" where
  "readable_fork e \<longleftrightarrow> ev_kind e = kind_session_fork \<longrightarrow> unmarshal_fork (ev_payload e) \<noteq> None"

definition replayable :: "event list \<Rightarrow> bool" where
  "replayable es \<longleftrightarrow>
     es \<noteq> [] \<and> sorted_wrt (<) (0 # map ev_seq es) \<and>
     list_all (\<lambda>e. ev_trace_id e = ev_trace_id (hd es) \<and> readable_fork e) es \<and>
     list_all (\<lambda>fld. no_debt (charges fld es) \<and> weight (charges fld es) \<le> max_int64) [UsageIn, UsageOut]"

lemma of_kind_append [simp]: "of_kind k (es @ fs) = of_kind k es @ of_kind k fs"
  by (simp add: of_kind_def)

lemma history_append [simp]: "history root (es @ fs) = history root es @ history root fs"
  by (simp add: history_def)

lemma last_seq_snoc [simp]: "last_seq_of (es @ [e]) = ev_seq e"
  by (simp add: last_seq_of_def)

definition charge_ok :: "event list \<Rightarrow> event \<Rightarrow> usage_field \<Rightarrow> bool" where
  "charge_ok es e fld \<longleftrightarrow> no_debt (charges fld [e]) \<and> weight (charges fld (es @ [e])) \<le> max_int64"

lemma count_field_iff:
  assumes "sums_at cs s" "weight (cs fld) \<le> max_int64"
  shows "(\<exists>s'. count_field fld e s = Inr s') \<longleftrightarrow>
    no_debt (charges fld [e]) \<and> weight (cs fld @ charges fld [e]) \<le> max_int64"
  using assms(2) by (auto simp: count_field_def charges_single count_usage_eq [OF assms(1)] split: option.splits)

lemma count_field_sums:
  assumes "sums_at cs s" "count_field fld e s = Inr s'"
  shows "sums_at (cs(fld := cs fld @ charges fld [e])) s'"
  using assms counted_sums [OF assms(1)]
  by (auto simp: count_field_def charges_single count_usage_eq [OF assms(1)] split: option.splits if_splits)

lemma count_field_keeps:
  assumes "sums_at cs s" "count_field fld e s = Inr s'"
  shows "ds_trace_id s' = ds_trace_id s" "ds_root_span s' = ds_root_span s"
    "ds_last_seq s' = ds_last_seq s" "ds_origin s' = ds_origin s" "ds_messages s' = ds_messages s"
    "ds_turns s' = ds_turns s" "ds_steps s' = ds_steps s" "ds_spawns s' = ds_spawns s"
    "ds_ended s' = ds_ended s"
  using assms(2)
  by (auto simp: count_field_def count_usage_eq [OF assms(1)] split: option.splits if_splits)

lemma apply_kind_Inr_iff: "(\<exists>s'. apply_kind e s = Inr s') \<longleftrightarrow> readable_fork e"
  by (auto simp: apply_kind_def readable_fork_def Let_def split: option.splits)

lemma apply_kind_keeps:
  assumes "apply_kind e s = Inr s'"
  shows "ds_trace_id s' = ds_trace_id s" "ds_root_span s' = ds_root_span s"
    "ds_last_seq s' = ds_last_seq s" "ds_usage s' = ds_usage s" "ds_by_actor s' = ds_by_actor s"
    "ds_by_span s' = ds_by_span s" "ds_by_span_actor s' = ds_by_span_actor s"
  using assms
  by (auto simp: apply_kind_def Let_def append_message_def split: option.splits if_splits)

text \<open>The kinds that \<open>Replay\<close> tells apart.\<close>

lemma replay_kind_cases:
  obtains "k = kind_session_fork" | "k = kind_session_end" | "k = kind_turn_start"
  | "k = kind_step_start" | "k = kind_subagent_spawn" | "k = kind_user_message"
  | "k = kind_assistant_message" | "k = kind_tool_call" | "k = kind_tool_result"
  | "k = kind_subagent_done"
  | "k \<noteq> kind_session_fork" "k \<noteq> kind_session_end" "k \<noteq> kind_turn_start" "k \<noteq> kind_step_start"
    "k \<noteq> kind_subagent_spawn" "k \<noteq> kind_user_message" "k \<noteq> kind_assistant_message"
    "k \<noteq> kind_tool_call" "k \<noteq> kind_tool_result" "k \<noteq> kind_subagent_done"
  by blast

lemma append_message_keeps [simp]:
  "ds_turns (append_message s e r) = ds_turns s" "ds_steps (append_message s e r) = ds_steps s"
  "ds_spawns (append_message s e r) = ds_spawns s" "ds_ended (append_message s e r) = ds_ended s"
  "ds_origin (append_message s e r) = ds_origin s"
  by (simp_all add: append_message_def)

lemma apply_kind_counts:
  assumes "apply_kind e s = Inr s'"
  shows "ds_turns s' = ds_turns s + length (of_kind kind_turn_start [e]) \<and>
    ds_steps s' = ds_steps s + length (of_kind kind_step_start [e]) \<and>
    ds_spawns s' = ds_spawns s + length (of_kind kind_subagent_spawn [e]) \<and>
    (ds_ended s' \<longleftrightarrow> ds_ended s \<or> of_kind kind_session_end [e] \<noteq> [])"
  by (cases "ev_kind e" rule: replay_kind_cases)
    (use assms in \<open>auto simp: apply_kind_def of_kind_def kind_defs split: option.splits if_splits\<close>)

lemma apply_kind_origin:
  assumes "apply_kind e s = Inr s'"
  shows "ds_origin s' = (if ds_origin s = None then origin_of [e] else ds_origin s)"
  using assms
  by (auto simp: apply_kind_def origin_of_def of_kind_def Let_def split: option.splits if_splits)

lemma apply_kind_messages:
  assumes "apply_kind e s = Inr s'"
  shows "ds_messages s' = ds_messages s @ history (ds_root_span s) [e]"
  by (cases "ev_kind e" rule: replay_kind_cases)
    (use assms in \<open>auto simp: apply_kind_def history_def visible_role_def append_message_def kind_defs
      split: option.splits\<close>)

lemma origin_of_snoc:
  "list_all readable_fork es \<Longrightarrow>
    origin_of (es @ [e]) = (if origin_of es = None then origin_of [e] else origin_of es)"
  by (auto simp: origin_of_def readable_fork_def list_all_iff of_kind_def split: list.splits
      dest: filter_eq_ConsD)

lemma weight_snoc_bound:
  "no_debt (cs @ ds) \<Longrightarrow> weight (cs @ ds) \<le> b \<Longrightarrow> weight cs \<le> b"
  using weight_nonneg [of ds] by simp

lemma sums_weight_max: "sums_at cs s \<Longrightarrow> weight (cs fld) \<le> max_int64"
  by (metis sums_atD(2) sint_le_max)

lemma replay_step_iff:
  assumes "projects e0 es s"
  shows "(\<exists>r. replay_step (last_seq_of es, s) e = Inr r) \<longleftrightarrow>
    last_seq_of es < ev_seq e \<and> ev_trace_id e = ev_trace_id e0 \<and> readable_fork e \<and>
    charge_ok es e UsageIn \<and> charge_ok es e UsageOut"
proof -
  let ?cs = "\<lambda>fld. charges fld es"
  let ?s = "s\<lparr>ds_last_seq := ev_seq e\<rparr>"
  have s: "sums_at ?cs ?s" "ds_trace_id s = ev_trace_id e0"
    using assms by (auto simp: projects_def)
  have ok1: "(\<exists>s1. count_field UsageIn e ?s = Inr s1) \<longleftrightarrow> charge_ok es e UsageIn"
    using count_field_iff [OF s(1) sums_weight_max [OF s(1)]] by (simp add: charge_ok_def)
  have ok2: "(\<exists>s2. count_field UsageOut e s1 = Inr s2) \<longleftrightarrow> charge_ok es e UsageOut"
    if "count_field UsageIn e ?s = Inr s1" for s1
    using count_field_iff [OF count_field_sums [OF s(1) that] sums_weight_max [OF count_field_sums [OF s(1) that]]]
    by (simp add: charge_ok_def)
  have "(\<exists>r. replay_step (last_seq_of es, s) e = Inr r) \<longleftrightarrow>
    last_seq_of es < ev_seq e \<and> ev_trace_id e = ev_trace_id e0 \<and>
    (\<exists>s1 s2 s3. count_field UsageIn e ?s = Inr s1 \<and> count_field UsageOut e s1 = Inr s2 \<and> apply_kind e s2 = Inr s3)"
    by (auto simp: replay_step_def s(2) rbind_Inr_iff)
  then show ?thesis using ok1 ok2 apply_kind_Inr_iff by metis
qed

lemma replay_step_projects:
  assumes p: "projects e0 es s" and forks: "list_all readable_fork es"
    and r: "replay_step (last_seq_of es, s) e = Inr r"
  shows "fst r = ev_seq e" "projects e0 (es @ [e]) (snd r)"
proof -
  let ?s = "s\<lparr>ds_last_seq := ev_seq e\<rparr>"
  from r obtain s1 s2 s3 where s1: "count_field UsageIn e ?s = Inr s1"
    and s2: "count_field UsageOut e s1 = Inr s2" and s3: "apply_kind e s2 = Inr s3" and r: "r = (ev_seq e, s3)"
    by (auto simp: replay_step_def rbind_Inr_iff split: if_splits)
  show "fst r = ev_seq e" by (simp add: r)
  have c0: "sums_at (\<lambda>fld. charges fld es) ?s"
    using p by (auto simp: projects_def)
  note c1 = count_field_sums [OF c0 s1] and k1 = count_field_keeps [OF c0 s1]
  note c2 = count_field_sums [OF c1 s2] and k2 = count_field_keeps [OF c1 s2]
  have "(\<lambda>fld. charges fld es)(UsageIn := charges UsageIn es @ charges UsageIn [e],
      UsageOut := charges UsageOut es @ charges UsageOut [e]) = (\<lambda>fld. charges fld (es @ [e]))"
    by (rule ext) (auto intro: usage_field.exhaust)
  with c2 have "sums_at (\<lambda>fld. charges fld (es @ [e])) s2" by simp
  then have "sums_at (\<lambda>fld. charges fld (es @ [e])) s3"
    using apply_kind_keeps [OF s3] by (auto elim: sums_at_cong)
  with p show "projects e0 (es @ [e]) (snd r)"
    using apply_kind_keeps [OF s3] apply_kind_counts [OF s3] apply_kind_origin [OF s3] apply_kind_messages [OF s3]
    by (simp add: projects_def r k1 k2 origin_of_snoc [OF forks])
qed

lemma replay_fold_projects:
  assumes "projects e0 es s" "list_all readable_fork es"
    and "rfold replay_step (last_seq_of es, s) fs = Inr r"
  shows "projects e0 (es @ fs) (snd r)"
  using assms
proof (induction fs arbitrary: es s)
  case Nil
  then have "snd r = s" by auto
  with Nil.prems(1) show ?case by simp
next
  case (Cons e fs)
  then obtain r1 where r1: "replay_step (last_seq_of es, s) e = Inr r1" "rfold replay_step r1 fs = Inr r"
    by (auto simp: rbind_Inr_iff)
  note step = replay_step_projects [OF Cons.prems(1,2) r1(1)]
  have "r1 = (last_seq_of (es @ [e]), snd r1)" using step(1) by (cases r1) simp
  moreover have "readable_fork e" using replay_step_iff [OF Cons.prems(1)] r1(1) by blast
  ultimately show ?case using Cons.IH [OF step(2)] r1(2) Cons.prems(2) by simp
qed

lemma replay_fold_iff:
  assumes "projects e0 es s" "list_all readable_fork es"
  shows "(\<exists>r. rfold replay_step (last_seq_of es, s) fs = Inr r) \<longleftrightarrow>
    sorted_wrt (<) (last_seq_of es # map ev_seq fs) \<and>
    list_all (\<lambda>e. ev_trace_id e = ev_trace_id e0 \<and> readable_fork e) fs \<and>
    list_all (\<lambda>fld. no_debt (charges fld fs) \<and> weight (charges fld (es @ fs)) \<le> max_int64) [UsageIn, UsageOut]"
  using assms
proof (induction fs arbitrary: es s)
  case Nil
  have "sums_at (\<lambda>fld. charges fld es) s" using Nil by (simp add: projects_def)
  from sums_weight_max [OF this] show ?case by simp
next
  case (Cons e fs)
  let ?ok = "\<lambda>es fs. list_all (\<lambda>fld. no_debt (charges fld fs) \<and> weight (charges fld (es @ fs)) \<le> max_int64) [UsageIn, UsageOut]"
  have ok: "?ok es (e # fs) \<longleftrightarrow> charge_ok es e UsageIn \<and> charge_ok es e UsageOut \<and> ?ok (es @ [e]) fs"
    using weight_nonneg [of "charges UsageIn fs"] weight_nonneg [of "charges UsageOut fs"]
      charges_append [of _ "[e]" fs] by (auto simp: charge_ok_def)
  have sorted: "sorted_wrt (<) (last_seq_of es # map ev_seq (e # fs)) \<longleftrightarrow>
    last_seq_of es < ev_seq e \<and> sorted_wrt (<) (last_seq_of (es @ [e]) # map ev_seq fs)" by auto
  show ?case
  proof (cases "\<exists>r. replay_step (last_seq_of es, s) e = Inr r")
    case True
    then obtain r1 where r1: "replay_step (last_seq_of es, s) e = Inr r1" by blast
    note step = replay_step_projects [OF Cons.prems r1]
    have "r1 = (last_seq_of (es @ [e]), snd r1)" using step(1) by (cases r1) simp
    moreover have e: "readable_fork e" using replay_step_iff [OF Cons.prems(1)] True by blast
    ultimately have "(\<exists>r. rfold replay_step (last_seq_of es, s) (e # fs) = Inr r) \<longleftrightarrow>
      (\<exists>r. rfold replay_step (last_seq_of (es @ [e]), snd r1) fs = Inr r)" using r1 by simp
    then show ?thesis
      unfolding Cons.IH [OF step(2)] using Cons.IH [OF step(2)] True e Cons.prems(2)
      unfolding replay_step_iff [OF Cons.prems(1)] ok sorted by auto
  next
    case False
    then have "\<nexists>r. rfold replay_step (last_seq_of es, s) (e # fs) = Inr r" by (auto simp: rbind_Inr_iff)
    with False show ?thesis unfolding replay_step_iff [OF Cons.prems(1)] ok sorted by auto
  qed
qed

lemma get_no_usage [simp]: "get_usage fld no_usage = 0"
  by (cases fld) (simp_all add: no_usage_def)

lemma initial_projects: "projects e [] (initial_state e)"
  by (auto simp: projects_def initial_state_def last_seq_of_def origin_of_def of_kind_def history_def
      sums_at_def usage_at_def actors_at_def)

lemma replay_Inr_iff: "(\<exists>s. replay es = Inr s) \<longleftrightarrow> replayable es"
proof (cases es)
  case (Cons e fs)
  then have hd: "hd es = e" "es \<noteq> []" by auto
  have nil: "last_seq_of [] = 0" by (simp add: last_seq_of_def)
  have "replay es = rbind (rfold replay_step (0, initial_state e) es) (\<lambda>(_, s). Inr s)"
    by (simp add: replay_def Cons)
  then have "(\<exists>s. replay es = Inr s) \<longleftrightarrow> (\<exists>r. rfold replay_step (0, initial_state e) es = Inr r)"
    by (auto simp: rbind_Inr_iff split_beta)
  with replay_fold_iff [OF initial_projects [of e], of es] show ?thesis
    unfolding replayable_def hd(1) nil append_Nil using hd(2) by simp
qed (simp add: replay_def replayable_def)

lemma replay_projects: "replay es = Inr s \<Longrightarrow> projects (hd es) es s"
  using replay_fold_projects [OF initial_projects [of "hd es"], of es]
  by (auto simp: replay_def rbind_Inr_iff last_seq_of_def split: list.splits)

section \<open>Properties\<close>

definition sample_log :: "event list" where
  "sample_log =
     (let ev = \<lparr> ev_seq = 1, ev_ts = 5, ev_trace_id = ''t'', ev_span_id = ''root'',
          ev_parent_span_id = None, ev_kind = kind_user_message, ev_actor = ''parent'',
          ev_payload = ''{}'', ev_raw = None, ev_usage_in = Some 3, ev_usage_out = None \<rparr> in
      [ev,
       ev\<lparr>ev_seq := 2, ev_span_id := ''child'', ev_kind := kind_assistant_message\<rparr>,
       ev\<lparr>ev_seq := 4, ev_span_id := ''child'', ev_kind := kind_subagent_done, ev_actor := ''agent''\<rparr>])"

text \<open>
  C18. \<open>Replay\<close> accepts exactly the well-formed logs: a non-empty sequence with positive, strictly
  increasing sequence numbers and one trace, whose forks are readable, whose usages are not
  negative and whose input and output totals fit an \<open>int64\<close>. The checks per actor and per span are
  never the reason for a refusal.
\<close>

theorem replay_accepts_iff:
  "(\<exists>s. replay es = Inr s) \<longleftrightarrow>
     es \<noteq> [] \<and> sorted_wrt (<) (0 # map ev_seq es) \<and>
     list_all (\<lambda>e. ev_trace_id e = ev_trace_id (hd es) \<and> readable_fork e) es \<and>
     list_all (\<lambda>fld. no_debt (charges fld es) \<and> weight (charges fld es) \<le> max_int64) [UsageIn, UsageOut]"
  unfolding replay_Inr_iff by (rule replayable_def)

text \<open>
  C19. The usage sums of a successful replay are exact and never wrapped: read as signed numbers, the
  total, the sum of each actor, of each span and of each actor in each span are the mathematical
  sums of what the log charges there.
\<close>

theorem replay_sums_exact:
  assumes "replay es = Inr s"
  shows "sint (get_usage fld (ds_usage s)) = weight (charges fld es) \<and>
    sint (get_usage fld (usage_at (ds_by_actor s) a)) = weight [c \<leftarrow> charges fld es. fst c = a] \<and>
    sint (get_usage fld (usage_at (ds_by_span s) sp)) = weight [c \<leftarrow> charges fld es. fst (snd c) = sp] \<and>
    sint (get_usage fld (usage_at (actors_at (ds_by_span_actor s) sp) a)) =
      weight [c \<leftarrow> charges fld es. fst (snd c) = sp \<and> fst c = a]"
proof -
  have "sums_at (\<lambda>fld. charges fld es) s" using replay_projects [OF assms] by (simp add: projects_def)
  from sums_atD(2-5) [OF this] show ?thesis by (intro conjI)
qed

text \<open>
  C20. A successful replay yields the history of the parent model in the order of the log: the
  messages and tool events of the root span and, of the spans of children, nothing but the final
  results. The origin is the first fork in the log, and turns, steps, spawns and the end are
  those of the log.
\<close>

theorem replay_projects_history:
  assumes "replay es = Inr s"
  shows "ds_messages s = history (ev_span_id (hd es)) es \<and> ds_origin s = origin_of es \<and>
    ds_last_seq s = ev_seq (last es) \<and> ds_trace_id s = ev_trace_id (hd es) \<and>
    ds_turns s = length (of_kind kind_turn_start es) \<and>
    ds_steps s = length (of_kind kind_step_start es) \<and>
    ds_spawns s = length (of_kind kind_subagent_spawn es) \<and>
    (ds_ended s \<longleftrightarrow> of_kind kind_session_end es \<noteq> [])"
proof -
  have "es \<noteq> []" using assms replay_Inr_iff [of es] by (auto simp: replayable_def)
  with replay_projects [OF assms] show ?thesis by (simp add: projects_def last_seq_of_def)
qed

lemma sample_log_replays: "\<exists>s. replay sample_log = Inr s"
  unfolding replay_Inr_iff
  by (simp add: replayable_def sample_log_def Let_def readable_fork_def charges_def max_int64_def kind_defs)

theorem replay_sums_exact_witness:
  "\<exists>s. replay sample_log = Inr s \<and> sint (tu_in (usage_at (ds_by_span s) ''child'')) = 6"
proof -
  obtain s where s: "replay sample_log = Inr s" using sample_log_replays by blast
  from replay_sums_exact [OF this, of UsageIn _ "''child''"]
  have "sint (tu_in (usage_at (ds_by_span s) ''child'')) = 6"
    by (simp add: sample_log_def Let_def charges_def)
  with s show ?thesis by blast
qed

lemma sample_log_history:
  "map ms_role (history (ev_span_id (hd sample_log)) sample_log) = [RoleUser, RoleSubagentResult]"
  by (simp add: sample_log_def Let_def history_def visible_role_def kind_defs)

theorem replay_projects_history_witness:
  "\<exists>s. replay sample_log = Inr s \<and> map ms_role (ds_messages s) = [RoleUser, RoleSubagentResult]"
proof -
  obtain s where s: "replay sample_log = Inr s" using sample_log_replays by blast
  then have "ds_messages s = history (ev_span_id (hd sample_log)) sample_log"
    using replay_projects_history by blast
  with s sample_log_history show ?thesis by simp
qed

end
