(* ===== verification/Fork.thy ===== *)
theory Fork
  imports Log_Properties Replay
begin

text \<open>
  Forking a session (\<open>core/logd/fork.go\<close>): the batch built from the source log and its commit by the
  writer of the destination. The source is what its reader returns; the destination is the state of
  the writer's loop, which takes the batch as \<open>InitBatch\<close> hands it over.
\<close>

section \<open>Model\<close>

datatype ('r, 'w) fork_error =
    BadForkPoint int
  | SourceRead 'r
  | EmptySource
  | SameTrace string
  | NoSuchSeq int
  | ForkCommit "'w write_error"

definition fork_record :: "event list \<Rightarrow> int \<Rightarrow> string \<Rightarrow> string \<Rightarrow> event" where
  "fork_record cut_events at_seq origin new_trace =
     \<lparr> ev_seq = 0, ev_ts = ev_ts (last cut_events), ev_trace_id = new_trace,
       ev_span_id = ev_span_id (hd cut_events), ev_parent_span_id = None,
       ev_kind = kind_session_fork, ev_actor = ''parent'',
       ev_payload = marshal_fork \<lparr> fp_origin_seq = at_seq, fp_origin_trace_id = origin \<rparr>,
       ev_raw = None, ev_usage_in = None, ev_usage_out = None \<rparr>"

definition fork_batch ::
    "('r, event list) result \<Rightarrow> int \<Rightarrow> string \<Rightarrow> (('r, 'w) fork_error, event list) result" where
  "fork_batch src at_seq new_trace =
     (if at_seq < 1 then Inl (BadForkPoint at_seq)
      else rbind (rmap_error SourceRead src) (\<lambda>events.
        if events = [] then Inl EmptySource
        else (let origin = ev_trace_id (hd events);
                  cut_events = filter (\<lambda>e. ev_seq e \<le> at_seq) events in
              if new_trace = origin then Inl (SameTrace new_trace)
              else if \<not> list_ex (\<lambda>e. ev_seq e = at_seq) events then Inl (NoSuchSeq at_seq)
              else Inr (fork_record cut_events at_seq origin new_trace #
                        map (\<lambda>e. e\<lparr>ev_trace_id := new_trace\<rparr>) cut_events))))"

text \<open>The answer and the state of the destination; no result while its store has not answered.\<close>

definition fork_session ::
    "preparer \<Rightarrow> ('env, 'st, 'w) appender \<Rightarrow> ('env, 'st, 'w) batcher \<Rightarrow> 'env
       \<Rightarrow> ('r, event list) result \<Rightarrow> int \<Rightarrow> string \<Rightarrow> ('st, 'w) core_state
       \<Rightarrow> ((('r, 'w) fork_error, unit) result \<times> ('st, 'w) core_state) option" where
  "fork_session prep app bat env src at_seq new_trace c =
     (case fork_batch src at_seq new_trace of
        Inl e \<Rightarrow> Some (Inl e, c)
      | Inr batch \<Rightarrow>
          map_option (\<lambda>(a, c'). (case a of Inl e \<Rightarrow> Inl (ForkCommit e) | Inr _ \<Rightarrow> Inr (), c'))
            (process prep app bat env (Batch batch) c))"

section \<open>Copies of events\<close>

text \<open>What the projection of a log reads of an event besides its number and its trace.\<close>

definition same_content :: "event \<Rightarrow> event \<Rightarrow> bool" where
  "same_content e e' \<longleftrightarrow>
     ev_span_id e' = ev_span_id e \<and> ev_kind e' = ev_kind e \<and> ev_actor e' = ev_actor e \<and>
     ev_payload e' = ev_payload e \<and> ev_usage_in e' = ev_usage_in e \<and> ev_usage_out e' = ev_usage_out e"

definition message_body :: "message \<Rightarrow> role \<times> string \<times> string" where
  "message_body m = (ms_role m, ms_span_id m, ms_content m)"

lemma event_usage_copy: "same_content e e' \<Longrightarrow> event_usage fld e' = event_usage fld e"
  by (cases fld) (auto simp: same_content_def)

lemma copies_project:
  assumes "list_all2 same_content es es'"
  shows "charges fld es' = charges fld es"
    and "map message_body (history root es') = map message_body (history root es)"
    and "length (of_kind k es') = length (of_kind k es)"
    and "list_all readable_fork es \<longleftrightarrow> list_all readable_fork es'"
  using assms
proof (induction rule: list_all2_induct)
  case (Cons e es e' es')
  {
    case 1
    show ?case using Cons(1,3) event_usage_copy [OF Cons(1)]
      by (auto simp: charges_def same_content_def split: option.splits)
  next
    case 2
    show ?case using Cons(1,4) by (auto simp: history_def same_content_def message_body_def split: option.splits)
  next
    case 3
    show ?case using Cons(1,5) by (auto simp: of_kind_def same_content_def)
  next
    case 4
    show ?case using Cons(1,6) by (auto simp: readable_fork_def same_content_def)
  }
qed (simp_all add: history_def of_kind_def)

lemma prepare_copy:
  assumes "prepare red schema rec seq = Inr p" "redact_bytes red (ev_payload rec) = ev_payload rec"
  shows "same_content rec p" "ev_trace_id p = ev_trace_id rec"
  using prepare_Inr(1) [OF assms(1)] assms(2)
  by (auto simp: redact_event_def same_content_def Let_def split: option.splits)

lemma prepare_batch_copy:
  assumes "prepare_batch (prepare red schema) i recs = Inr ps"
    and "list_all (\<lambda>e. redact_bytes red (ev_payload e) = ev_payload e) recs"
  shows "list_all2 same_content recs ps" "map ev_trace_id ps = map ev_trace_id recs"
  using assms
  by (induction recs arbitrary: i ps) (auto simp: rbind_Inr_iff split: sum.splits dest: prepare_copy)

lemma stored_copy:
  "list_all2 same_content es (map sqlite_stored es)" "ev_trace_id (sqlite_stored e) = ev_trace_id e"
  by (induction es) (auto simp: same_content_def sqlite_stored_def)

lemma same_content_trans:
  "list_all2 same_content es es' \<Longrightarrow> list_all2 same_content es' es'' \<Longrightarrow> list_all2 same_content es es''"
  by (rule list_all2_trans [of same_content same_content same_content]) (auto simp: same_content_def)

section \<open>The committed fork\<close>

lemma fork_batch_Inr:
  assumes "fork_batch (Inr events) at_seq new_trace = Inr batch"
  shows "1 \<le> at_seq" "events \<noteq> []" "new_trace \<noteq> ev_trace_id (hd events)"
    "\<exists>e \<in> set events. ev_seq e = at_seq"
    "batch = fork_record (filter (\<lambda>e. ev_seq e \<le> at_seq) events) at_seq (ev_trace_id (hd events)) new_trace #
       map (\<lambda>e. e\<lparr>ev_trace_id := new_trace\<rparr>) (filter (\<lambda>e. ev_seq e \<le> at_seq) events)"
  using assms by (auto simp: fork_batch_def Let_def rmap_error_def list_ex_iff split: if_splits)

lemma empty_batch_log:
  assumes "process (prepare red schema) sqlite_append sqlite_append_batch env (Batch recs) (open_core []) = Some (Inr n, c)"
  shows "\<exists>ps. prepare_batch (prepare red schema) 0 recs = Inr ps \<and>
    table_log (co_store c) = map sqlite_stored ps \<and> consecutive 1 ps"
proof -
  from assms obtain ps st where ps: "prepare_batch (prepare red schema) 0 recs = Inr ps"
    and st: "sqlite_append_batch env [] ps = Some (Inr st)" "c = (open_core [])\<lparr>co_store := st, co_next := 1 + int (length ps)\<rparr>"
    by (auto simp: process_def open_core_def Let_def split: sum.splits option.splits prod.splits if_splits)
  have wf: "table_wf []" and log: "table_log [] = []" by (simp_all add: table_wf_def table_log_def)
  have cons: "consecutive 1 ps" using sqlite_writer.batch_consecutive [OF ps] by simp
  have "table_log st = map sqlite_stored ps"
    using sqlite.bat_log [OF wf st(1)] consecutive_sorted [OF cons] log by simp
  with ps cons st(2) show ?thesis by auto
qed

lemma no_debt_filter: "no_debt (charges fld es) \<Longrightarrow> no_debt (charges fld (filter P es))"
  by (auto simp: no_debt_def charges_def list_all_iff)

lemma weight_charges_filter:
  "no_debt (charges fld es) \<Longrightarrow> weight (charges fld (filter P es)) \<le> weight (charges fld es)"
proof (induction es)
  case (Cons e es)
  have split: "charges fld (e # xs) = charges fld [e] @ charges fld xs" for xs
    using charges_append [of fld "[e]" xs] by simp
  have nd: "no_debt (charges fld [e])" "no_debt (charges fld es)"
    using Cons.prems by (auto simp: split [of es])
  from weight_nonneg [OF nd(1)] Cons.IH [OF nd(2)] show ?case
    by (simp add: split [of es] split [of "filter P es"])
qed simp

lemma replayable_filter:
  assumes "replayable es" "filter P es \<noteq> []"
  shows "replayable (filter P es)"
proof -
  have "hd (filter P es) \<in> set es" using hd_in_set [OF assms(2)] by simp
  then have hd: "ev_trace_id (hd (filter P es)) = ev_trace_id (hd es)"
    using assms(1) unfolding replayable_def list_all_iff by blast
  have sorted: "sorted_wrt (<) (0 # map ev_seq (filter P es))"
    using assms(1) by (simp add: replayable_def sorted_wrt_map sorted_wrt_filter)
  have "no_debt (charges fld (filter P es)) \<and> weight (charges fld (filter P es)) \<le> max_int64" for fld
  proof -
    have "no_debt (charges fld es)" "weight (charges fld es) \<le> max_int64"
      using assms(1) by (cases fld; simp add: replayable_def)+
    then show ?thesis using no_debt_filter [of fld es P] weight_charges_filter [of fld es P] by simp
  qed
  moreover have "list_all (\<lambda>e. ev_trace_id e = ev_trace_id (hd es) \<and> readable_fork e) (filter P es)"
    using assms(1) unfolding replayable_def list_all_iff set_filter by blast
  ultimately show ?thesis using sorted assms(2) unfolding replayable_def hd by simp
qed

text \<open>A log that is a fork record followed by copies of a replayable log is replayable.\<close>

lemma fork_log_replayable:
  assumes es: "replayable es" and f: "same_content (fork_record es at_seq origin new) f" "ev_trace_id f = new"
    and copies: "list_all2 same_content es es'" and cons: "consecutive 1 (f # es')"
    and trace: "list_all (\<lambda>e. ev_trace_id e = new) es'" and at: "1 \<le> at_seq" "at_seq \<le> max_int64"
  shows "replayable (f # es')" "origin_of (f # es') = Some \<lparr> fp_origin_seq = at_seq, fp_origin_trace_id = utf8_sanitize origin \<rparr>"
    "charges fld (f # es') = charges fld es"
    "map message_body (history root (f # es')) = map message_body (history root es)"
    "k \<noteq> kind_session_fork \<Longrightarrow> length (of_kind k (f # es')) = length (of_kind k es)"
proof -
  have fork: "unmarshal_fork (ev_payload f) = Some \<lparr> fp_origin_seq = at_seq, fp_origin_trace_id = utf8_sanitize origin \<rparr>"
    using f(1) unmarshal_marshal_fork [of "\<lparr> fp_origin_seq = at_seq, fp_origin_trace_id = origin \<rparr>"] at
    by (simp add: same_content_def fork_record_def min_int64_def)
  have kind: "ev_kind f = kind_session_fork" using f(1) by (simp add: same_content_def fork_record_def)
  have ch: "charges g (f # es') = charges g es" for g
  proof -
    have "charges g [f] = []"
      using f(1) by (cases g) (simp_all add: charges_single same_content_def fork_record_def)
    then show ?thesis using copies_project(1) [OF copies] charges_append [of g "[f]" es'] by simp
  qed
  then show "charges fld (f # es') = charges fld es" .
  show "map message_body (history root (f # es')) = map message_body (history root es)"
    using copies_project(2) [OF copies] kind by (simp add: history_def visible_role_def kind_defs)
  show "origin_of (f # es') = Some \<lparr> fp_origin_seq = at_seq, fp_origin_trace_id = utf8_sanitize origin \<rparr>"
    by (simp add: origin_of_def of_kind_def kind fork)
  show "length (of_kind k (f # es')) = length (of_kind k es)" if "k \<noteq> kind_session_fork"
    using that copies_project(3) [OF copies] kind by (auto simp: of_kind_def)
  have "list_all readable_fork es'"
    using es copies_project(4) [OF copies] unfolding replayable_def list_all_iff by blast
  moreover have "sorted_wrt (<) (0 # map ev_seq (f # es'))"
    using consecutive_sorted [OF cons] consecutive_bounds [OF cons] by fastforce
  moreover have "readable_fork f" by (simp add: readable_fork_def fork)
  moreover have "list_all (\<lambda>fld. no_debt (charges fld es) \<and> weight (charges fld es) \<le> max_int64) [UsageIn, UsageOut]"
    using es unfolding replayable_def by blast
  ultimately show "replayable (f # es')"
    using trace f(2) unfolding replayable_def ch by (simp add: list_all_iff)
qed

lemma fork_session_Inr:
  fixes src :: "('r, event list) result" and c :: "('st, 'w) core_state"
  assumes "fork_session prep app bat env src at_seq new c = Some (Inr u, c')"
  obtains batch n where
    "fork_batch src at_seq new = (Inr batch :: (('r, 'w) fork_error, event list) result)"
    "process prep app bat env (Batch batch) c = Some (Inr n, c')"
proof (cases "fork_batch src at_seq new :: (('r, 'w) fork_error, event list) result")
  case (Inl e)
  with assms show ?thesis by (simp add: fork_session_def)
next
  case (Inr batch)
  with assms obtain a where a: "process prep app bat env (Batch batch) c = Some (a, c')"
    "(case a of Inl e \<Rightarrow> Inl (ForkCommit e) | Inr _ \<Rightarrow> Inr ()) = (Inr u :: (('r, 'w) fork_error, unit) result)"
    by (auto simp: fork_session_def)
  with that Inr show ?thesis by (cases a) auto
qed

lemma fork_session_Inl:
  fixes src :: "('r, event list) result" and c :: "('st, 'w) core_state"
  assumes "fork_session prep app bat env src at_seq new c = Some (Inl e, c')"
  obtains "c' = c"
  | batch we where "process prep app bat env (Batch batch) c = Some (Inl we, c')" "e = ForkCommit we"
proof (cases "fork_batch src at_seq new :: (('r, 'w) fork_error, event list) result")
  case (Inl e)
  with assms that show ?thesis by (simp add: fork_session_def)
next
  case (Inr batch)
  with assms obtain a where a: "process prep app bat env (Batch batch) c = Some (a, c')"
    "(case a of Inl e \<Rightarrow> Inl (ForkCommit e) | Inr _ \<Rightarrow> Inr ()) = (Inl e :: (('r, 'w) fork_error, unit) result)"
    by (auto simp: fork_session_def)
  with that(2) show ?thesis by (cases a) auto
qed

lemma process_error:
  assumes "process prep app bat env sub c = Some (Inl e, c')"
  shows "co_store c' = co_store c" "co_next c' = co_next c"
    "co_terminal c' \<noteq> co_terminal c \<Longrightarrow> \<exists>cause. e = ErrTerminal cause"
  using assms
  by (auto simp: process_def Let_def
      split: option.split_asm submission.split_asm if_split_asm sum.split_asm prod.split_asm)

text \<open>The log that a successful fork leaves in an empty destination.\<close>

lemma fork_session_log:
  fixes src :: "('r, event list) result"
  assumes src: "src = Inr events"
    and fork: "fork_session (prepare red schema) sqlite_append sqlite_append_batch env src at_seq new (open_core []) = Some (Inr (), c)"
    and red: "\<And>batch. fork_batch src at_seq new = (Inr batch :: (('r, store_error) fork_error, event list) result)
      \<Longrightarrow> list_all (\<lambda>e. redact_bytes red (ev_payload e) = ev_payload e) batch"
  obtains f es' where "table_log (co_store c) = f # es'" "consecutive 1 (f # es')"
    "same_content (fork_record (filter (\<lambda>e. ev_seq e \<le> at_seq) events) at_seq (ev_trace_id (hd events)) new) f"
    "list_all2 same_content (filter (\<lambda>e. ev_seq e \<le> at_seq) events) es'"
    "ev_trace_id f = new" "list_all (\<lambda>e. ev_trace_id e = new) es'"
proof -
  let ?cut = "filter (\<lambda>e. ev_seq e \<le> at_seq) events"
  let ?r = "fork_record ?cut at_seq (ev_trace_id (hd events)) new"
  let ?batch = "?r # map (\<lambda>e. e\<lparr>ev_trace_id := new\<rparr>) ?cut"
  from fork obtain batch n where batch: "fork_batch src at_seq new = (Inr batch :: (('r, store_error) fork_error, event list) result)"
    and ok: "process (prepare red schema) sqlite_append sqlite_append_batch env (Batch batch) (open_core []) = Some (Inr n, c)"
    by (elim fork_session_Inr)
  have eq: "batch = ?batch" using fork_batch_Inr(5) [OF batch [unfolded src]] .
  from empty_batch_log [OF ok] obtain ps where ps: "prepare_batch (prepare red schema) 0 batch = Inr ps"
    "table_log (co_store c) = map sqlite_stored ps" "consecutive 1 ps" by blast
  note copy = prepare_batch_copy [OF ps(1) red [OF batch]]
  have "list_all2 same_content ?batch (map sqlite_stored ps)"
    using same_content_trans [OF copy(1) stored_copy(1)] eq by simp
  then obtain f es' where log: "map sqlite_stored ps = f # es'" "same_content ?r f"
    "list_all2 same_content (map (\<lambda>e. e\<lparr>ev_trace_id := new\<rparr>) ?cut) es'"
    by (auto simp: list_all2_Cons1)
  have copies: "list_all2 same_content ?cut es'"
    using log(3) by (rule same_content_trans [rotated]) (auto simp: list_all2_conv_all_nth same_content_def)
  have "map ev_trace_id (f # es') = map ev_trace_id ?batch"
    using copy(2) eq by (simp add: log(1) [symmetric] stored_copy(2) comp_def)
  then have tr: "map ev_trace_id (f # es') = new # map (\<lambda>_. new) ?cut" by (simp add: fork_record_def)
  have "map ev_seq (f # es') = map ev_seq ps"
    by (simp add: log(1) [symmetric] sqlite.stored_seq)
  then have "consecutive 1 (f # es')"
    using ps(3) log(1) by (simp only: consecutive_def) (metis length_map)
  moreover have "list_all (\<lambda>e. ev_trace_id e = new) es'"
  proof -
    have "map ev_trace_id es' = map (\<lambda>_. new) ?cut" using tr by simp
    then have "ev_trace_id ` set es' = (\<lambda>_. new) ` set ?cut" by (metis set_map)
    then show ?thesis by (auto simp: list_all_iff)
  qed
  ultimately show ?thesis using that ps(2) log(1,2) copies tr by simp
qed

section \<open>A concrete fork\<close>

lemma kind_not_spawn: "utf8_sanitize k \<noteq> ''subagent/spawn''" if "is_ascii k" "k \<noteq> ''subagent/spawn''"
  using that by (simp add: utf8_sanitize_ascii_id)

definition sample_fork_text :: string where
  "sample_fork_text = marshal_fork \<lparr> fp_origin_seq = 2, fp_origin_trace_id = ''t'' \<rparr>"

lemmas ground_json_simps = escape_body_ascii escape_ascii_def byte_def html_char_def dquote_def
  backslash_def char_of_eq

lemma sample_fork_text_eq:
  "sample_fork_text = ''{'' @ [dquote] @ ''origin_seq'' @ [dquote] @ '':2,'' @ [dquote] @
     ''origin_trace_id'' @ [dquote] @ '':'' @ [dquote] @ ''t'' @ [dquote] @ ''}''"
  by (simp add: sample_fork_text_def marshal_fork_def print_object_def quote_json_def show_int_def
      show_nat.simps digit_char_def ground_json_simps)

lemma sample_fork_parses: "\<exists>v. parses 1 sample_fork_text v"
proof -
  let ?ms = "[(''origin_seq'', show_int 2), (''origin_trace_id'', quote_json True ''t'')]"
  have "\<exists>v. parses 0 (snd m) v" if "m \<in> set ?ms" for m
    using that parses_show_int [of 0 2] parses_string [of 0 True "''t''"] by auto
  from parses_members_exist [OF this] obtain kvs where "list_all2 (parses_member 0) ?ms kvs" by blast
  from parses_object [OF this] show ?thesis by (auto simp: sample_fork_text_def marshal_fork_def)
qed

lemma sample_fork_raw: "marshal_raw sample_fork_text = Some sample_fork_text"
proof -
  have "json_valid sample_fork_text"
    using sample_fork_parses parses_json_parse [of 1 sample_fork_text] by (auto simp: json_valid_def max_nesting_def)
  moreover have "compact True False sample_fork_text = sample_fork_text"
    by (simp add: sample_fork_text_eq json_space_def line_separator_def ground_json_simps)
  moreover have "sample_fork_text \<noteq> []" by (simp add: sample_fork_text_eq)
  ultimately show ?thesis by (simp add: marshal_raw_def)
qed

lemma sample_fork_batch:
  "fork_batch (Inr sample_log) 2 ''n'' =
     Inr ((fork_record (take 2 sample_log) 2 ''t'' ''n'') # map (\<lambda>e. e\<lparr>ev_trace_id := ''n''\<rparr>) (take 2 sample_log))"
  by (simp add: fork_batch_def sample_log_def Let_def rmap_error_def)

lemma sample_record_prepared:
  "prepare plain_redactor any_schema (fork_record es 2 ''t'' ''n'') seq =
     Inr ((fork_record es 2 ''t'' ''n'')\<lparr>ev_seq := seq\<rparr>)"
proof -
  obtain v where "parses 1 sample_fork_text v" using sample_fork_parses by blast
  then show ?thesis
    using sample_fork_raw
    by (intro prepare_plain [of _ v] kind_not_spawn)
      (simp_all add: fork_record_def sample_fork_text_def [symmetric] is_ascii_def kind_defs)
qed

lemma sample_copy_prepared:
  assumes "e \<in> set (take 2 sample_log)"
  shows "prepare plain_redactor any_schema (e\<lparr>ev_trace_id := ''n''\<rparr>) seq =
     Inr (e\<lparr>ev_trace_id := ''n'', ev_seq := seq\<rparr>)"
  using assms marshal_raw_empty_object empty_object_parses
  by (subst prepare_plain [of _ "JObj []"])
    (auto simp: sample_log_def Let_def utf8_sanitize_ascii_id is_ascii_def kind_defs)

lemma sample_fork_runs:
  "\<exists>c. fork_session (prepare plain_redactor any_schema) sqlite_append sqlite_append_batch
     [(None, False)] (Inr sample_log) 2 ''n'' (open_core []) = Some (Inr (), c)"
proof -
  let ?es = "take 2 sample_log"
  obtain e1 e2 where es: "?es = [e1, e2]" by (simp add: sample_log_def Let_def)
  have raw: "ev_raw e1 = None" "ev_raw e2 = None"
    using es by (auto simp: sample_log_def Let_def)
  have "prepare plain_redactor any_schema (e1\<lparr>ev_trace_id := ''n''\<rparr>) seq = Inr (e1\<lparr>ev_trace_id := ''n'', ev_seq := seq\<rparr>)"
    "prepare plain_redactor any_schema (e2\<lparr>ev_trace_id := ''n''\<rparr>) seq = Inr (e2\<lparr>ev_trace_id := ''n'', ev_seq := seq\<rparr>)"
    for seq by (simp_all add: sample_copy_prepared es)
  then have ps: "prepare_batch (prepare plain_redactor any_schema) 0
      (fork_record [e1, e2] 2 ''t'' ''n'' # map (\<lambda>e. e\<lparr>ev_trace_id := ''n''\<rparr>) [e1, e2]) =
    Inr [(fork_record [e1, e2] 2 ''t'' ''n'')\<lparr>ev_seq := 1\<rparr>,
      e1\<lparr>ev_trace_id := ''n'', ev_seq := 2\<rparr>, e2\<lparr>ev_trace_id := ''n'', ev_seq := 3\<rparr>]"
    by (simp add: sample_record_prepared)
  have "ev_raw (fork_record [e1, e2] 2 ''t'' ''n'') = None" by (simp add: fork_record_def)
  then have "\<exists>t. sqlite_append_batch [(None, False)] []
    [(fork_record [e1, e2] 2 ''t'' ''n'')\<lparr>ev_seq := 1\<rparr>,
      e1\<lparr>ev_trace_id := ''n'', ev_seq := 2\<rparr>, e2\<lparr>ev_trace_id := ''n'', ev_seq := 3\<rparr>] = Some (Inr t)"
    by (simp add: sqlite_append_batch_def decode_raw_def raw sql_insert_def insert_args_def)
  with ps show ?thesis
    by (auto simp: fork_session_def sample_fork_batch es process_def open_core_def)
qed

section \<open>Properties\<close>



text \<open>
  C22. A refused fork commits nothing. Whatever the reason of the refusal, be it the fork point, the
  source, the destination that is not empty or its pipeline, the store of the destination is the
  one before the call, and only a failed commit makes the writer terminal.
\<close>

theorem fork_error_commits_nothing:
  assumes "fork_session prep app bat env src at_seq new c = Some (Inl e, c')"
  shows "co_store c' = co_store c \<and> co_next c' = co_next c \<and>
    (co_terminal c' \<noteq> co_terminal c \<longrightarrow> (\<exists>cause. e = ForkCommit (ErrTerminal cause)))"
proof (cases rule: fork_session_Inl [OF assms])
  case 2
  from process_error [OF 2(1)] 2(2) show ?thesis by auto
qed simp

theorem fork_error_commits_nothing_witness:
  "co_store (snd (the (fork_session (prepare plain_redactor any_schema) sqlite_append sqlite_append_batch
     [(None, False)] (Inr sample_log :: (store_error, event list) result) 2 ''t'' run_core))) = co_store run_core"
proof -
  have "fork_session (prepare plain_redactor any_schema) sqlite_append sqlite_append_batch
      [(None, False)] (Inr sample_log :: (store_error, event list) result) 2 ''t'' run_core = Some (Inl (SameTrace ''t''), run_core)"
    by (simp add: fork_session_def fork_batch_def sample_log_def Let_def rmap_error_def)
  from fork_error_commits_nothing [OF this] show ?thesis
    by (simp add: fork_session_def fork_batch_def sample_log_def Let_def rmap_error_def)
qed

end
