(* ===== verification/Process_Wire.thy ===== *)
theory Process_Wire
  imports Go_Bytes
begin

text \<open>
  The framing protocol of the process broker (\<open>core/world/processwire/wire.go\<close>): the encoder with its
  retrying write, the decoder with its checks, and the round trip between them.

  A writer is a function that answers a call with the number of bytes it took, an error or none, and
  its new state. A reader is the sequence of bytes that it will deliver before the end of the stream.
  Sequence numbers are 64-bit words and wrap as in the source.
\<close>

section \<open>Frames\<close>

definition wire_version :: nat where "wire_version = 1"
definition header_bytes :: nat where "header_bytes = 12"
definition max_payload :: nat where "max_payload = 64 * 1024"
definition max_frame_bytes :: nat where "max_frame_bytes = header_bytes + max_payload"

type_synonym u8 = "8 word"
type_synonym u64 = "64 word"

record frame =
  fr_kind :: u8
  fr_stream :: u8
  fr_flags :: u8
  fr_seq :: u64
  fr_payload :: string

datatype read_error = EndOfStream | UnexpectedEOF

datatype wire_error =
    BadKind u8 u8
  | PayloadTooLarge nat
  | FrameTooShort nat
  | FrameTooLarge nat
  | PartialFrame
  | BadVersion u8
  | BadSequence u64 u64
  | WriterError string
  | ShortWrite
  | SliceOutOfRange
  | ReadError read_error

definition valid_kind :: "u8 \<Rightarrow> bool" where
  "valid_kind kind \<longleftrightarrow> 1 \<le> kind \<and> kind \<le> 13"

definition valid_stream :: "u8 \<Rightarrow> bool" where
  "valid_stream stream \<longleftrightarrow> 1 \<le> stream \<and> stream \<le> 3"

text \<open>\<open>binary.BigEndian\<close>: the low \<open>k\<close> bytes of a number, and the number of a byte sequence.\<close>

fun be_bytes :: "nat \<Rightarrow> nat \<Rightarrow> string" where
  "be_bytes 0 n = []"
| "be_bytes (Suc k) n = be_bytes k (n div 256) @ [char_of (n mod 256)]"

definition be_value :: "string \<Rightarrow> nat" where
  "be_value s = foldl (\<lambda>a c. a * 256 + byte c) 0 s"

definition u8_char :: "u8 \<Rightarrow> char" where
  "u8_char w = char_of (unat w)"

definition char_u8 :: "char \<Rightarrow> u8" where
  "char_u8 c = of_nat (byte c)"

section \<open>Encoder\<close>

type_synonym 'w io_writer = "'w \<Rightarrow> string \<Rightarrow> string option \<times> int \<times> 'w"

function write_full :: "'w io_writer \<Rightarrow> 'w \<Rightarrow> string \<Rightarrow> (wire_error, unit) result \<times> 'w" where
  "write_full wr w data =
     (if data = [] then (Inr (), w)
      else (case wr w data of
              (Some e, n, w') \<Rightarrow> (Inl (WriterError e), w')
            | (None, n, w') \<Rightarrow>
                if n \<le> 0 then (Inl ShortWrite, w')
                else if int (length data) < n then (Inl SliceOutOfRange, w')
                else write_full wr w' (drop (nat n) data)))"
  by pat_completeness auto
termination by (relation "measure (\<lambda>(wr, w, data). length data)") auto

declare write_full.simps [simp del]

record 'w encoder =
  en_writer :: 'w
  en_next :: u64

definition new_encoder :: "'w \<Rightarrow> 'w encoder" where
  "new_encoder w = \<lparr> en_writer = w, en_next = 1 \<rparr>"

definition frame_bytes :: "frame \<Rightarrow> string" where
  "frame_bytes f =
     be_bytes 4 (header_bytes + length (fr_payload f)) @
     [char_of wire_version, u8_char (fr_kind f), u8_char (fr_stream f), u8_char (fr_flags f)] @
     be_bytes 8 (unat (fr_seq f)) @ fr_payload f"

definition enc_write ::
    "'w io_writer \<Rightarrow> 'w encoder \<Rightarrow> u8 \<Rightarrow> u8 \<Rightarrow> u8 \<Rightarrow> string
       \<Rightarrow> (wire_error, u64) result \<times> 'w encoder" where
  "enc_write wr e kind stream flags payload =
     (if \<not> valid_kind kind \<or> \<not> valid_stream stream then (Inl (BadKind kind stream), e)
      else if max_payload < length payload then (Inl (PayloadTooLarge (length payload)), e)
      else (let seq = en_next e;
                buf = frame_bytes \<lparr> fr_kind = kind, fr_stream = stream, fr_flags = flags,
                                    fr_seq = seq, fr_payload = payload \<rparr> in
            case write_full wr (en_writer e) buf of
              (Inl err, w) \<Rightarrow> (Inl err, e\<lparr>en_writer := w\<rparr>)
            | (Inr _, w) \<Rightarrow> (Inr seq, \<lparr> en_writer = w, en_next = en_next e + 1 \<rparr>)))"

section \<open>Decoder\<close>

record decoder =
  de_input :: string
  de_expect :: u64

definition new_decoder :: "string \<Rightarrow> decoder" where
  "new_decoder s = \<lparr> de_input = s, de_expect = 1 \<rparr>"

text \<open>\<open>io.ReadFull\<close>: the bytes, or an error that tells an empty stream from a short one.\<close>

definition read_full :: "nat \<Rightarrow> string \<Rightarrow> (read_error, string) result \<times> string" where
  "read_full n s =
     (if n \<le> length s then (Inr (take n s), drop n s)
      else (Inl (if s = [] then EndOfStream else UnexpectedEOF), []))"

definition decode_frame :: "u64 \<Rightarrow> string \<Rightarrow> (wire_error, frame) result" where
  "decode_frame expect buf =
     (let kind = char_u8 (buf ! 1); stream = char_u8 (buf ! 2);
          seq = of_nat (be_value (take 8 (drop 4 buf))) in
      if byte (buf ! 0) \<noteq> wire_version then Inl (BadVersion (char_u8 (buf ! 0)))
      else if \<not> valid_kind kind \<or> \<not> valid_stream stream then Inl (BadKind kind stream)
      else if seq \<noteq> expect then Inl (BadSequence seq expect)
      else Inr \<lparr> fr_kind = kind, fr_stream = stream, fr_flags = char_u8 (buf ! 3),
                 fr_seq = seq, fr_payload = drop 12 buf \<rparr>)"

definition dec_read :: "decoder \<Rightarrow> (wire_error, frame) result \<times> decoder" where
  "dec_read d =
     (case read_full 4 (de_input d) of
        (Inl err, rest) \<Rightarrow> (Inl (ReadError err), d\<lparr>de_input := rest\<rparr>)
      | (Inr pre, rest) \<Rightarrow>
          (let len = be_value pre in
           if len < header_bytes then (Inl (FrameTooShort len), d\<lparr>de_input := rest\<rparr>)
           else if max_frame_bytes < len then (Inl (FrameTooLarge len), d\<lparr>de_input := rest\<rparr>)
           else (case read_full len rest of
                   (Inl _, rest') \<Rightarrow> (Inl PartialFrame, d\<lparr>de_input := rest'\<rparr>)
                 | (Inr buf, rest') \<Rightarrow>
                     (case decode_frame (de_expect d) buf of
                        Inl err \<Rightarrow> (Inl err, d\<lparr>de_input := rest'\<rparr>)
                      | Inr f \<Rightarrow> (Inr f, \<lparr> de_input = rest', de_expect = de_expect d + 1 \<rparr>)))))"

section \<open>Numbers and bytes\<close>

lemma length_be_bytes [simp]: "length (be_bytes k n) = k"
  by (induction k arbitrary: n) auto

lemma be_value_snoc [simp]: "be_value (s @ [c]) = be_value s * 256 + byte c"
  by (simp add: be_value_def)

lemma be_value_bytes: "be_value (be_bytes k n) = n mod 256 ^ k"
proof (induction k arbitrary: n)
  case (Suc k)
  then show ?case by (simp add: byte_def mod_mult2_eq mult.commute)
qed (simp add: be_value_def)

lemma be_bytes_value: "length s = k \<Longrightarrow> be_bytes k (be_value s) = s"
proof (induction k arbitrary: s)
  case (Suc k)
  then obtain t c where "s = t @ [c]" "length t = k" by (metis length_Suc_conv_rev)
  with Suc.IH [of t] byte_less [of c] show ?case by (simp add: char_of_byte)
qed simp

lemma be_value_less: "be_value s < 256 ^ length s"
proof -
  have "be_value s = be_value s mod 256 ^ length s"
    using be_value_bytes [of "length s" "be_value s"] by (simp add: be_bytes_value)
  then show ?thesis by (metis mod_less_divisor zero_less_numeral zero_less_power)
qed

lemma char_u8_char [simp]: "char_u8 (u8_char w) = w"
  using unsigned_less [of w, where 'a = nat] by (simp add: char_u8_def u8_char_def byte_char_of)

lemma u8_char_u8 [simp]: "u8_char (char_u8 c) = c"
  using byte_less [of c] by (simp add: char_u8_def u8_char_def unat_of_nat char_of_byte)

section \<open>Round trip\<close>

definition sendable :: "frame \<Rightarrow> bool" where
  "sendable f \<longleftrightarrow> valid_kind (fr_kind f) \<and> valid_stream (fr_stream f) \<and> length (fr_payload f) \<le> max_payload"

lemmas wire_consts = wire_version_def header_bytes_def max_payload_def max_frame_bytes_def

lemma read_full_append: "length s = n \<Longrightarrow> read_full n (s @ t) = (Inr s, t)"
  by (simp add: read_full_def)

lemma unat_u64_mod: "unat (w :: u64) mod 256 ^ 8 = unat w"
  using unsigned_less [of w, where 'a = nat] by (simp add: mod_less)

definition frame_body :: "frame \<Rightarrow> string" where
  "frame_body f =
     [char_of wire_version, u8_char (fr_kind f), u8_char (fr_stream f), u8_char (fr_flags f)] @
     be_bytes 8 (unat (fr_seq f)) @ fr_payload f"

lemma frame_bytes_body: "frame_bytes f = be_bytes 4 (length (frame_body f)) @ frame_body f"
  by (simp add: frame_bytes_def frame_body_def header_bytes_def)

lemma decode_frame_body: "sendable f \<Longrightarrow> decode_frame (fr_seq f) (frame_body f) = Inr f"
  using be_value_bytes [of 8 "unat (fr_seq f)"] unat_u64_mod [of "fr_seq f"]
  by (simp add: decode_frame_def frame_body_def sendable_def wire_version_def byte_def)

lemma take_4_nth: "4 \<le> length xs \<Longrightarrow> [xs ! 0, xs ! 1, xs ! 2, xs ! 3] @ drop 4 xs = xs"
  by (cases xs rule: list.exhaust; cases "tl xs"; cases "tl (tl xs)"; cases "tl (tl (tl xs))") auto

lemma decode_frame_Inr:
  assumes "decode_frame expect buf = Inr f" "12 \<le> length buf"
  shows "fr_seq f = expect" "valid_kind (fr_kind f)" "valid_stream (fr_stream f)" "frame_body f = buf"
proof -
  have f: "byte (buf ! 0) = wire_version" "fr_kind f = char_u8 (buf ! 1)" "fr_stream f = char_u8 (buf ! 2)"
    "fr_flags f = char_u8 (buf ! 3)" "fr_seq f = of_nat (be_value (take 8 (drop 4 buf)))"
    "fr_payload f = drop 12 buf"
    and ok: "valid_kind (fr_kind f)" "valid_stream (fr_stream f)" "fr_seq f = expect"
    using assms(1) by (auto simp: decode_frame_def Let_def split: if_splits)
  show "fr_seq f = expect" "valid_kind (fr_kind f)" "valid_stream (fr_stream f)" by (fact ok)+
  have b0: "char_of wire_version = buf ! 0" using f(1) char_of_byte [of "buf ! 0"] by simp
  have l8: "length (take 8 (drop 4 buf)) = 8" using assms(2) by simp
  have "be_value (take 8 (drop 4 buf)) < 2 ^ 64" using be_value_less [of "take 8 (drop 4 buf)"] l8 by simp
  then have "unat (fr_seq f) = be_value (take 8 (drop 4 buf))" by (simp add: f(5) unat_of_nat)
  then have b8: "be_bytes 8 (unat (fr_seq f)) = take 8 (drop 4 buf)" using be_bytes_value [OF l8] by simp
  have pl: "fr_payload f = drop 8 (drop 4 buf)" by (simp add: f(6))
  have "frame_body f = [buf ! 0, buf ! 1, buf ! 2, buf ! 3] @ take 8 (drop 4 buf) @ drop 8 (drop 4 buf)"
    unfolding frame_body_def b8 b0 f(2,3,4) pl by simp
  then show "frame_body f = buf" using take_4_nth [of buf] assms(2) by (simp only: append_take_drop_id)
qed

lemma length_frame_body: "length (frame_body f) = header_bytes + length (fr_payload f)"
  by (simp add: frame_body_def header_bytes_def)

lemma dec_read_frame:
  assumes "sendable f" "fr_seq f = de_expect d" "de_input d = frame_bytes f @ rest"
  shows "dec_read d = (Inr f, \<lparr> de_input = rest, de_expect = de_expect d + 1 \<rparr>)"
proof -
  let ?n = "length (frame_body f)"
  have n: "?n \<le> max_frame_bytes" "header_bytes \<le> ?n"
    using assms(1) by (simp_all add: sendable_def length_frame_body max_frame_bytes_def)
  have "be_value (be_bytes 4 ?n) = ?n mod 256 ^ 4" by (rule be_value_bytes)
  also have "\<dots> = ?n" using n(1) by (intro mod_less) (simp add: wire_consts)
  finally have "be_value (be_bytes 4 ?n) = ?n" .
  moreover have "read_full 4 (de_input d) = (Inr (be_bytes 4 ?n), frame_body f @ rest)"
    using read_full_append [of "be_bytes 4 ?n" 4 "frame_body f @ rest"]
    by (simp add: assms(3) frame_bytes_body)
  moreover have "read_full ?n (frame_body f @ rest) = (Inr (frame_body f), rest)"
    by (rule read_full_append [OF refl])
  ultimately show ?thesis
    using decode_frame_body [OF assms(1)] assms(2) n by (simp add: dec_read_def)
qed

text \<open>The decoder accepts nothing but encodings of sendable frames.\<close>

lemma read_full_Inr: "read_full n s = (Inr t, r) \<Longrightarrow> s = t @ r \<and> length t = n"
  by (auto simp: read_full_def split: if_splits)

lemma dec_read_sound:
  assumes "dec_read d = (Inr f, d')"
  shows "sendable f" "fr_seq f = de_expect d" "de_input d = frame_bytes f @ de_input d'"
    "de_expect d' = de_expect d + 1"
proof -
  from assms obtain pre rest buf rest' where
    pre: "read_full 4 (de_input d) = (Inr pre, rest)" "header_bytes \<le> be_value pre" "be_value pre \<le> max_frame_bytes"
    and buf: "read_full (be_value pre) rest = (Inr buf, rest')"
    and f: "decode_frame (de_expect d) buf = Inr f" "d' = \<lparr> de_input = rest', de_expect = de_expect d + 1 \<rparr>"
    unfolding dec_read_def Let_def
    by (auto split: prod.split_asm sum.split_asm if_split_asm)
  note s = read_full_Inr [OF pre(1)] read_full_Inr [OF buf]
  have "12 \<le> length buf" using s(2) pre(2) by (simp add: header_bytes_def)
  note fr = decode_frame_Inr [OF f(1) this]
  have len: "length (frame_body f) = be_value pre" using s(2) fr(4) by simp
  show "fr_seq f = de_expect d" by (rule fr(1))
  show "de_expect d' = de_expect d + 1" by (simp add: f(2))
  show "sendable f"
    using fr(2,3) pre(3) len by (simp add: sendable_def length_frame_body max_frame_bytes_def)
  have "be_bytes 4 (be_value pre) = pre" using s(1) by (intro be_bytes_value) simp
  then show "de_input d = frame_bytes f @ de_input d'"
    using s fr(4) by (simp add: frame_bytes_body len f(2))
qed

text \<open>
  What a writer of Go promises: a call that reports no error has taken the number of bytes it
  reports, never more than it was given. \<open>out\<close> is everything the writer has taken.
\<close>

definition honest_writer :: "'w io_writer \<Rightarrow> ('w \<Rightarrow> string) \<Rightarrow> bool" where
  "honest_writer wr out \<longleftrightarrow>
     (\<forall>w data n w'. wr w data = (None, n, w') \<longrightarrow>
        0 \<le> n \<and> n \<le> int (length data) \<and> out w' = out w @ take (nat n) data)"

lemma write_full_out:
  assumes "honest_writer wr out" "write_full wr w data = (Inr u, w')"
  shows "out w' = out w @ data"
  using assms(2)
proof (induction data arbitrary: w rule: length_induct)
  case (1 data)
  show ?case
  proof (cases "data = []")
    case True
    with "1.prems" show ?thesis by (simp add: write_full.simps)
  next
    case False
    with "1.prems" obtain n w1 where n: "wr w data = (None, n, w1)" "0 < n" "n \<le> int (length data)"
      and rec: "write_full wr w1 (drop (nat n) data) = (Inr u, w')"
      by (auto simp: write_full.simps [of wr w data] split: prod.splits option.splits if_splits)
    have "length (drop (nat n) data) < length data" using False n(2) by simp
    with "1.IH" rec have "out w' = out w1 @ drop (nat n) data" by blast
    moreover have "out w1 = out w @ take (nat n) data"
      using assms(1) n(1) unfolding honest_writer_def by blast
    ultimately show ?thesis by simp
  qed
qed

definition numbered :: "u64 \<Rightarrow> frame list \<Rightarrow> frame list" where
  "numbered n fs = map2 (\<lambda>f k. f\<lparr>fr_seq := n + of_nat k\<rparr>) fs [0..<length fs]"

lemma numbered_simps [simp]:
  "numbered n [] = []" "numbered n (f # fs) = f\<lparr>fr_seq := n\<rparr> # numbered (n + 1) fs"
proof -
  show "numbered n (f # fs) = f\<lparr>fr_seq := n\<rparr> # numbered (n + 1) fs"
    by (rule nth_equalityI) (auto simp: numbered_def nth_Cons' add.assoc simp flip: of_nat_Suc simp del: upt_Suc)
qed (simp add: numbered_def)

lemma enc_write_Inr:
  assumes "honest_writer wr out" "enc_write wr e k s fl p = (Inr seq, e')"
  shows "seq = en_next e" "en_next e' = en_next e + 1"
    "sendable \<lparr> fr_kind = k, fr_stream = s, fr_flags = fl, fr_seq = seq, fr_payload = p \<rparr>"
    "out (en_writer e') = out (en_writer e) @
      frame_bytes \<lparr> fr_kind = k, fr_stream = s, fr_flags = fl, fr_seq = seq, fr_payload = p \<rparr>"
  using assms(2) write_full_out [OF assms(1)]
  by (auto simp: enc_write_def Let_def sendable_def split: if_splits prod.splits sum.splits)

fun enc_all ::
    "'w io_writer \<Rightarrow> 'w encoder \<Rightarrow> frame list \<Rightarrow> (wire_error, u64 list) result \<times> 'w encoder" where
  "enc_all wr e [] = (Inr [], e)"
| "enc_all wr e (f # fs) =
     (case enc_write wr e (fr_kind f) (fr_stream f) (fr_flags f) (fr_payload f) of
        (Inl err, e') \<Rightarrow> (Inl err, e')
      | (Inr seq, e') \<Rightarrow>
          (case enc_all wr e' fs of
             (Inl err, e'') \<Rightarrow> (Inl err, e'')
           | (Inr seqs, e'') \<Rightarrow> (Inr (seq # seqs), e'')))"

fun dec_all :: "nat \<Rightarrow> decoder \<Rightarrow> (wire_error, frame list) result \<times> decoder" where
  "dec_all 0 d = (Inr [], d)"
| "dec_all (Suc n) d =
     (case dec_read d of
        (Inl err, d') \<Rightarrow> (Inl err, d')
      | (Inr f, d') \<Rightarrow>
          (case dec_all n d' of
             (Inl err, d'') \<Rightarrow> (Inl err, d'')
           | (Inr fs, d'') \<Rightarrow> (Inr (f # fs), d'')))"

lemma enc_all_ConsE:
  assumes "enc_all wr e (f # fs) = (Inr seqs, e')"
  obtains seq e1 seqs1 where
    "enc_write wr e (fr_kind f) (fr_stream f) (fr_flags f) (fr_payload f) = (Inr seq, e1)"
    "enc_all wr e1 fs = (Inr seqs1, e')" "seqs = seq # seqs1"
  using assms by (auto split: prod.split_asm sum.split_asm)

lemma enc_all_out:
  assumes "honest_writer wr out" "enc_all wr e fs = (Inr seqs, e')"
  shows "list_all sendable (numbered (en_next e) fs) \<and> seqs = map fr_seq (numbered (en_next e) fs) \<and>
    out (en_writer e') = out (en_writer e) @ concat (map frame_bytes (numbered (en_next e) fs))"
  using assms(2)
proof (induction fs arbitrary: e seqs)
  case (Cons f fs)
  from Cons.prems obtain seq e1 seqs1 where
    w: "enc_write wr e (fr_kind f) (fr_stream f) (fr_flags f) (fr_payload f) = (Inr seq, e1)"
    and r: "enc_all wr e1 fs = (Inr seqs1, e')" "seqs = seq # seqs1" by (rule enc_all_ConsE)
  note e = enc_write_Inr [OF assms(1) w]
  have f: "\<lparr> fr_kind = fr_kind f, fr_stream = fr_stream f, fr_flags = fr_flags f, fr_seq = en_next e,
      fr_payload = fr_payload f \<rparr> = f\<lparr>fr_seq := en_next e\<rparr>" by simp
  show ?case using Cons.IH [OF r(1)] e(2) e(3,4) [unfolded e(1) f] r(2) e(1) by simp
qed simp

lemma dec_all_frames:
  assumes "list_all sendable (numbered n fs)"
    and "de_input d = concat (map frame_bytes (numbered n fs)) @ rest" "de_expect d = n"
  shows "dec_all (length fs) d = (Inr (numbered n fs), \<lparr> de_input = rest, de_expect = n + of_nat (length fs) \<rparr>)"
  using assms
proof (induction fs arbitrary: n d)
  case (Cons f fs)
  let ?rest = "concat (map frame_bytes (numbered (n + 1) fs)) @ rest"
  have "dec_read d = (Inr (f\<lparr>fr_seq := n\<rparr>), \<lparr> de_input = ?rest, de_expect = n + 1 \<rparr>)"
    using dec_read_frame [of "f\<lparr>fr_seq := n\<rparr>" d ?rest] Cons.prems by simp
  moreover note Cons.IH [of "n + 1" "\<lparr> de_input = ?rest, de_expect = n + 1 \<rparr>"]
  ultimately show ?case using Cons.prems(1) by (simp add: add.assoc)
qed (simp add: numbered_def)

section \<open>Properties\<close>

text \<open>
  C23. What the encoder sends, the decoder delivers. However the writer splits the bytes, when all
  frames were written without an error the decoder reads back exactly these frames in order,
  numbered from one as the encoder reported, and consumes every byte.
\<close>

theorem wire_round_trip:
  assumes "honest_writer wr out" and "out w = []"
    and "enc_all wr (new_encoder w) fs = (Inr seqs, e)"
  shows "dec_all (length fs) (new_decoder (out (en_writer e))) =
      (Inr (numbered 1 fs), \<lparr> de_input = [], de_expect = 1 + of_nat (length fs) \<rparr>) \<and>
    seqs = map fr_seq (numbered 1 fs)"
  using enc_all_out [OF assms(1,3)] assms(2)
    dec_all_frames [of 1 fs "new_decoder (out (en_writer e))" "[]"]
  by (simp add: new_encoder_def new_decoder_def)

definition three_bytes :: "string io_writer" where
  "three_bytes w data = (None, int (min 3 (length data)), w @ take 3 data)"

definition sample_frame :: frame where
  "sample_frame = \<lparr> fr_kind = 4, fr_stream = 1, fr_flags = 0, fr_seq = 0, fr_payload = ''hi'' \<rparr>"

lemma three_bytes_honest: "honest_writer three_bytes id"
  by (auto simp: honest_writer_def three_bytes_def min_def)

lemma three_bytes_total: "fst (write_full three_bytes w data) = Inr ()"
proof (induction data arbitrary: w rule: length_induct)
  case (1 data)
  show ?case
  proof (cases "data = []")
    case False
    then have "length (drop (nat (int (min 3 (length data)))) data) < length data" by simp
    with 1 have "fst (write_full three_bytes (w @ take 3 data) (drop (nat (int (min 3 (length data)))) data)) = Inr ()"
      by blast
    with False show ?thesis
      by (simp add: write_full.simps [of three_bytes w data] three_bytes_def [of w data])
  qed (simp add: write_full.simps)
qed

theorem wire_round_trip_witness:
  "\<exists>e. enc_all three_bytes (new_encoder []) [sample_frame] = (Inr [1], e) \<and>
     fst (dec_all 1 (new_decoder (en_writer e))) = (Inr [sample_frame\<lparr>fr_seq := 1\<rparr>] :: (wire_error, frame list) result)"
proof -
  obtain w where "write_full three_bytes [] (frame_bytes (sample_frame\<lparr>fr_seq := 1\<rparr>)) = (Inr (), w)"
    using three_bytes_total prod.exhaust_sel by metis
  then have e: "enc_all three_bytes (new_encoder []) [sample_frame] = (Inr [1], \<lparr> en_writer = w, en_next = 2 \<rparr>)"
    by (simp add: enc_write_def new_encoder_def sample_frame_def valid_kind_def valid_stream_def max_payload_def Let_def)
  with wire_round_trip [OF three_bytes_honest _ e] show ?thesis by simp
qed

text \<open>
  C24. The decoder is strict and bounded. When it delivers a frame, the bytes it consumed are the
  encoding of that frame and nothing else, its kind and stream are known, its payload is at most
  64 KiB, and its sequence number is the one expected, so that no frame is lost or repeated.
\<close>

theorem decoder_strict:
  assumes "dec_read d = (Inr f, d')"
  shows "de_input d = frame_bytes f @ de_input d' \<and> fr_seq f = de_expect d \<and>
    de_expect d' = de_expect d + 1 \<and> valid_kind (fr_kind f) \<and> valid_stream (fr_stream f) \<and>
    length (fr_payload f) \<le> 64 * 1024"
  using dec_read_sound [OF assms] by (simp add: sendable_def max_payload_def)

theorem decoder_strict_witness:
  "\<exists>d'. dec_read (new_decoder (frame_bytes (sample_frame\<lparr>fr_seq := 1\<rparr>) @ ''x'')) =
     (Inr (sample_frame\<lparr>fr_seq := 1\<rparr>), d') \<and> length (fr_payload (sample_frame\<lparr>fr_seq := 1\<rparr>)) \<le> 64 * 1024"
proof -
  let ?f = "sample_frame\<lparr>fr_seq := 1\<rparr>"
  have "sendable ?f"
    by (simp add: sample_frame_def sendable_def valid_kind_def valid_stream_def max_payload_def)
  then have "dec_read (new_decoder (frame_bytes ?f @ ''x'')) =
      (Inr ?f, \<lparr> de_input = ''x'', de_expect = de_expect (new_decoder (frame_bytes ?f @ ''x'')) + 1 \<rparr>)"
    by (rule dec_read_frame) (simp_all add: new_decoder_def)
  moreover from this have "length (fr_payload ?f) \<le> 64 * 1024" by (elim decoder_strict [elim_format] conjE)
  ultimately show ?thesis by (intro exI conjI)
qed

end
