(* ===== verification/Go_State.thy ===== *)
theory Go_State
  imports Go_Prelude
begin

text \<open>
  Sequential code that changes a state and may fail: a computation takes the state and returns a
  result with the new state, also when the result is an error. \<open>sbind\<close> is the sequence of two
  statements with an early return of the error, \<open>sfinally\<close> runs a deferred call that may add an error.

  \<open>emits\<close> is the specification of a computation that only appends to a trace: whatever state it
  starts from, its result and what it appended are related by a predicate.
\<close>

type_synonym ('s, 'e, 'a) comp = "'s \<Rightarrow> ('e, 'a) result \<times> 's"

definition sreturn :: "'a \<Rightarrow> ('s, 'e, 'a) comp" where
  "sreturn x s = (Inr x, s)"

definition sfail :: "'e \<Rightarrow> ('s, 'e, 'a) comp" where
  "sfail e s = (Inl e, s)"

definition sbind :: "('s, 'e, 'a) comp \<Rightarrow> ('a \<Rightarrow> ('s, 'e, 'b) comp) \<Rightarrow> ('s, 'e, 'b) comp" where
  "sbind m f s = (case m s of (Inl e, s') \<Rightarrow> (Inl e, s') | (Inr x, s') \<Rightarrow> f x s')"

definition slift :: "('e, 'a) result \<Rightarrow> ('s, 'e, 'a) comp" where
  "slift r s = (r, s)"

definition smap_error :: "('e \<Rightarrow> 'd) \<Rightarrow> ('s, 'e, 'a) comp \<Rightarrow> ('s, 'd, 'a) comp" where
  "smap_error g m s = (case m s of (r, s') \<Rightarrow> (rmap_error g r, s'))"

text \<open>A deferred call: it runs after the body in every case, and its error joins the body's.\<close>

definition sfinally ::
    "('e \<Rightarrow> 'e \<Rightarrow> 'e) \<Rightarrow> ('s, 'e, 'a) comp \<Rightarrow> ('s, 'e, unit) comp \<Rightarrow> ('s, 'e, 'a) comp" where
  "sfinally join body cleanup s =
     (case body s of (r, s1) \<Rightarrow>
        (case cleanup s1 of
           (Inr _, s2) \<Rightarrow> (r, s2)
         | (Inl e, s2) \<Rightarrow> (Inl (case r of Inl e0 \<Rightarrow> join e0 e | Inr _ \<Rightarrow> e), s2)))"

fun siter :: "('a \<Rightarrow> ('s, 'e, unit) comp) \<Rightarrow> 'a list \<Rightarrow> ('s, 'e, unit) comp" where
  "siter f [] = sreturn ()"
| "siter f (x # xs) = sbind (f x) (\<lambda>_. siter f xs)"

section \<open>Traces\<close>

definition emits :: "('s \<Rightarrow> 't list) \<Rightarrow> ('s, 'e, 'a) comp \<Rightarrow> (('e, 'a) result \<Rightarrow> 't list \<Rightarrow> bool) \<Rightarrow> bool" where
  "emits tr m P \<longleftrightarrow> (\<forall>s r s'. m s = (r, s') \<longrightarrow> (\<exists>ts. tr s' = tr s @ ts \<and> P r ts))"

lemma emitsI: "(\<And>s r s'. m s = (r, s') \<Longrightarrow> \<exists>ts. tr s' = tr s @ ts \<and> P r ts) \<Longrightarrow> emits tr m P"
  by (simp add: emits_def)

lemma emitsD: "emits tr m P \<Longrightarrow> m s = (r, s') \<Longrightarrow> \<exists>ts. tr s' = tr s @ ts \<and> P r ts"
  by (simp add: emits_def)

lemma emits_mono: "emits tr m P \<Longrightarrow> (\<And>r ts. P r ts \<Longrightarrow> Q r ts) \<Longrightarrow> emits tr m Q"
  unfolding emits_def by blast

lemma emits_return: "P (Inr x) [] \<Longrightarrow> emits tr (sreturn x) P"
  by (auto simp: emits_def sreturn_def)

lemma emits_fail: "P (Inl e) [] \<Longrightarrow> emits tr (sfail e) P"
  by (auto simp: emits_def sfail_def)

lemma emits_lift: "P r [] \<Longrightarrow> emits tr (slift r) P"
  by (auto simp: emits_def slift_def)

lemma emits_map_error:
  assumes "emits tr m (\<lambda>r ts. P (rmap_error g r) ts)"
  shows "emits tr (smap_error g m) P"
  using assms by (fastforce simp: emits_def smap_error_def split: prod.splits)

lemma emits_bind:
  assumes "emits tr m P" and "\<And>x. emits tr (f x) (Q x)"
    and "\<And>e ts. P (Inl e) ts \<Longrightarrow> R (Inl e) ts"
    and "\<And>x r ts us. P (Inr x) ts \<Longrightarrow> Q x r us \<Longrightarrow> R r (ts @ us)"
  shows "emits tr (sbind m f) R"
proof (rule emitsI)
  fix s r s'
  assume *: "sbind m f s = (r, s')"
  obtain q s1 where m: "m s = (q, s1)" by fastforce
  from emitsD [OF assms(1) m] obtain ts where ts: "tr s1 = tr s @ ts" "P q ts" by blast
  show "\<exists>ts. tr s' = tr s @ ts \<and> R r ts"
  proof (cases q)
    case (Inl e)
    with * m ts assms(3) show ?thesis by (auto simp: sbind_def)
  next
    case (Inr x)
    with * m have "f x s1 = (r, s')" by (simp add: sbind_def)
    from emitsD [OF assms(2) this] obtain us where "tr s' = tr s1 @ us" "Q x r us" by blast
    with ts Inr assms(4) show ?thesis by (intro exI [of _ "ts @ us"]) auto
  qed
qed

lemma emits_finally:
  assumes "emits tr m P" and "emits tr c C"
    and "\<And>r q ts us. P r ts \<Longrightarrow> C q us \<Longrightarrow>
      R (case q of Inr _ \<Rightarrow> r | Inl e \<Rightarrow> Inl (case r of Inl e0 \<Rightarrow> join e0 e | Inr _ \<Rightarrow> e)) (ts @ us)"
  shows "emits tr (sfinally join m c) R"
proof (rule emitsI)
  fix s r s'
  assume *: "sfinally join m c s = (r, s')"
  obtain r1 s1 where m: "m s = (r1, s1)" by fastforce
  obtain q s2 where c: "c s1 = (q, s2)" by fastforce
  from emitsD [OF assms(1) m] obtain ts where ts: "tr s1 = tr s @ ts" "P r1 ts" by blast
  from emitsD [OF assms(2) c] obtain us where us: "tr s2 = tr s1 @ us" "C q us" by blast
  have "s' = s2" "r = (case q of Inr _ \<Rightarrow> r1 | Inl e \<Rightarrow> Inl (case r1 of Inl e0 \<Rightarrow> join e0 e | Inr _ \<Rightarrow> e))"
    using * m c by (auto simp: sfinally_def split: sum.splits)
  with ts us assms(3) [OF ts(2) us(2)] show "\<exists>ts. tr s' = tr s @ ts \<and> R r ts" by auto
qed

lemma emits_iter:
  assumes "\<And>x. x \<in> set xs \<Longrightarrow> emits tr (f x) P" and "Q (Inr ()) []"
    and "\<And>e ts. P (Inl e) ts \<Longrightarrow> Q (Inl e) ts"
    and "\<And>r ts us. P (Inr ()) ts \<Longrightarrow> Q r us \<Longrightarrow> Q r (ts @ us)"
  shows "emits tr (siter f xs) Q"
  using assms(1)
proof (induction xs)
  case Nil
  from assms(2) show ?case by (simp add: emits_return)
next
  case (Cons x xs)
  have "emits tr (siter f xs) Q" using Cons by simp
  moreover have "emits tr (f x) P" using Cons.prems by simp
  ultimately show ?case
    unfolding siter.simps using assms(3,4) by (intro emits_bind [of tr "f x" P _ "\<lambda>_. Q"]) auto
qed

end
