(* ===== verification/Loop.thy ===== *)
theory Loop
  imports Go_State Replay
begin

text \<open>
  The turn and step machine of a session (\<open>core/loop/loop.go\<close>, \<open>core/loop/hooks.go\<close>).

  What the loop calls is a record of functions over one state: the writer's \<open>Submit\<close> and \<open>Replay\<close>, the
  model, the tools, the clock and the registered hooks. The flag of \<open>se_submit\<close> says that the call
  uses the context that is never cancelled. A nil \<open>json.RawMessage\<close> is the empty string; only the
  rewrite of a decision tells nil from empty. In a rewritten model request a repeated key
  \<open>messages\<close> counts with its last value.
\<close>

section \<open>Hooks\<close>

definition hook_pre_step :: string where "hook_pre_step = ''pre_step''"
definition hook_pre_tool :: string where "hook_pre_tool = ''pre_tool''"
definition hook_post_tool :: string where "hook_post_tool = ''post_tool''"
definition hook_turn_stopping :: string where "hook_turn_stopping = ''turn_stopping''"

definition valid_hook_points :: "string list" where
  "valid_hook_points = [hook_pre_step, hook_pre_tool, hook_post_tool, hook_turn_stopping]"

definition verdict_continue :: string where "verdict_continue = ''continue''"
definition verdict_rewrite :: string where "verdict_rewrite = ''rewrite''"
definition verdict_reject :: string where "verdict_reject = ''reject''"

record decision =
  dc_verdict :: string
  dc_rewrite :: "string option"
  dc_reason :: string

definition raw_of :: "string option \<Rightarrow> string" where
  "raw_of x = (case x of None \<Rightarrow> [] | Some s \<Rightarrow> s)"

datatype loop_error =
    UnknownHookPoint string
  | ContinueWithRewrite
  | RewriteMissing
  | RejectWithoutReason
  | UnknownVerdict string
  | NotAnObject
  | NotStrict
  | MissingKey string
  | WrongContainer string
  | NoToolName
  | NotOkBranch string
  | OkWithDetails
  | BadRewriteTarget string loop_error
  | BadRewrite string
  | MarshalFailed
  | EmitFailed string string
  | ReplayFailed string
  | ModelFailed string
  | MaxStepsReached int
  | Joined loop_error loop_error

definition validate_decision :: "decision \<Rightarrow> (loop_error, unit) result" where
  "validate_decision d =
     (if dc_verdict d = verdict_continue then
        (if dc_rewrite d \<noteq> None then Inl ContinueWithRewrite else Inr ())
      else if dc_verdict d = verdict_rewrite then
        (if raw_of (dc_rewrite d) = [] then Inl RewriteMissing else Inr ())
      else if dc_verdict d = verdict_reject then
        (if dc_reason d = [] then Inl RejectWithoutReason else Inr ())
      else Inl (UnknownVerdict (dc_verdict d)))"

definition resolve_decisions ::
    "decision list \<Rightarrow> string \<Rightarrow> decision option \<times> string \<times> bool" where
  "resolve_decisions decisions original =
     (case find (\<lambda>d. dc_verdict d = verdict_reject) decisions of
        Some d \<Rightarrow> (Some d, [], False)
      | None \<Rightarrow>
          (None, foldl (\<lambda>(final, rewrote) d.
             if dc_verdict d = verdict_rewrite then (raw_of (dc_rewrite d), True) else (final, rewrote))
             (original, False) decisions))"

section \<open>Payloads\<close>

record tool_call =
  tc_name :: string
  tc_args :: string

record tool_result =
  tr_error :: "string option"
  tr_output :: string
  tr_reason :: "string option"
  tr_status :: string

record request_message =
  rm_seq :: int
  rm_role :: string
  rm_span_id :: string
  rm_content :: string

record model_response =
  mr_text :: string
  mr_tool_calls :: "tool_call list"
  mr_usage_in :: i64
  mr_usage_out :: i64

fun role_name :: "role \<Rightarrow> string" where
  "role_name RoleUser = ''user''"
| "role_name RoleAssistant = ''assistant''"
| "role_name RoleToolCall = ''tool_call''"
| "role_name RoleToolResult = ''tool_result''"
| "role_name RoleSubagentResult = ''subagent_result''"

definition request_of :: "message list \<Rightarrow> request_message list" where
  "request_of ms = map (\<lambda>m. \<lparr> rm_seq = ms_seq m, rm_role = role_name (ms_role m),
     rm_span_id = ms_span_id m, rm_content = ms_content m \<rparr>) ms"

fun all_some :: "'a option list \<Rightarrow> 'a list option" where
  "all_some [] = Some []"
| "all_some (x # xs) = Option.bind x (\<lambda>y. map_option (\<lambda>ys. y # ys) (all_some xs))"

definition omit_empty :: "string \<Rightarrow> string \<Rightarrow> (string \<times> string) list option" where
  "omit_empty name raw =
     (if raw = [] then Some [] else map_option (\<lambda>v. [(name, v)]) (marshal_raw raw))"

definition text_payload :: "string \<Rightarrow> string" where
  "text_payload t = print_object [(''text'', quote_json True t)]"

definition marshal_tool_call :: "tool_call \<Rightarrow> string option" where
  "marshal_tool_call c =
     map_option (\<lambda>args. print_object [(''args'', args), (''name'', quote_json True (tc_name c))])
       (marshal_raw (tc_args c))"

definition marshal_tool_result :: "tool_result \<Rightarrow> string option" where
  "marshal_tool_result r =
     map_option (\<lambda>out. print_object
         (opt_field ''error'' (map_option (quote_json True) (tr_error r)) @ out @
          opt_field ''reason'' (map_option (quote_json True) (tr_reason r)) @
          [(''status'', quote_json True (tr_status r))]))
       (omit_empty ''output'' (tr_output r))"

definition marshal_message :: "request_message \<Rightarrow> string option" where
  "marshal_message m =
     map_option (\<lambda>content. print_object
         [(''Seq'', show_int (rm_seq m)), (''Role'', quote_json True (rm_role m)),
          (''SpanID'', quote_json True (rm_span_id m)), (''Content'', content)])
       (marshal_raw (rm_content m))"

definition marshal_request :: "request_message list \<Rightarrow> string option" where
  "marshal_request ms =
     (if ms = [] then Some (print_object [(''messages'', ''null'')])
      else map_option (\<lambda>xs. print_object [(''messages'', ''['' @ join_with '','' xs @ '']'')])
             (all_some (map marshal_message ms)))"

definition marshal_verdict :: "string \<Rightarrow> decision \<Rightarrow> string option" where
  "marshal_verdict point d =
     map_option (\<lambda>rw. print_object
         ((''point'', quote_json True point) #
          (if dc_reason d = [] then [] else [(''reason'', quote_json True (dc_reason d))]) @ rw @
          [(''verdict'', quote_json True (dc_verdict d))]))
       (omit_empty ''rewrite''
          (if dc_verdict d = verdict_rewrite then raw_of (dc_rewrite d) else []))"

definition normalize_output :: "string \<Rightarrow> string" where
  "normalize_output out =
     (let trimmed = trim_space out in
      if take 1 trimmed = ''{'' then trimmed
      else (case marshal_raw (if trimmed = [] then ''null'' else trimmed) of
              None \<Rightarrow> []
            | Some v \<Rightarrow> print_object [(''value'', v)]))"

section \<open>Strict decoding\<close>

definition known_member :: "string list \<Rightarrow> string \<Rightarrow> bool" where
  "known_member names k \<longleftrightarrow> list_ex (\<lambda>n. n = k \<or> fold_name n = fold_name k) names"

definition strict_members :: "string list \<Rightarrow> string \<Rightarrow> (string \<times> string) list option" where
  "strict_members names s =
     Option.bind (struct_members s) (\<lambda>ms.
       if list_all (\<lambda>m. known_member names (fst m)) ms then Some ms else None)"

definition raw_field :: "string list \<Rightarrow> string \<Rightarrow> (string \<times> string) list \<Rightarrow> string" where
  "raw_field names name ms =
     (let raws = field_raws names name ms in if raws = [] then [] else last raws)"

definition decode_tool_call :: "string \<Rightarrow> tool_call option" where
  "decode_tool_call s =
     (let names = [''args'', ''name''] in
      Option.bind (strict_members names s) (\<lambda>ms.
      Option.bind (decode_field dec_string [] (field_raws names ''name'' ms)) (\<lambda>name.
        Some \<lparr> tc_name = name, tc_args = raw_field names ''args'' ms \<rparr>)))"

definition decode_tool_result :: "string \<Rightarrow> tool_result option" where
  "decode_tool_result s =
     (let names = [''error'', ''output'', ''reason'', ''status''] in
      Option.bind (strict_members names s) (\<lambda>ms.
      Option.bind (decode_ptr dec_string None (field_raws names ''error'' ms)) (\<lambda>err.
      Option.bind (decode_ptr dec_string None (field_raws names ''reason'' ms)) (\<lambda>reason.
      Option.bind (decode_field dec_string [] (field_raws names ''status'' ms)) (\<lambda>status.
        Some \<lparr> tr_error = err, tr_output = raw_field names ''output'' ms, tr_reason = reason,
               tr_status = status \<rparr>)))))"

definition decode_text :: "string \<Rightarrow> string option" where
  "decode_text s =
     Option.bind (strict_members [''text''] s) (\<lambda>ms.
       decode_field dec_string [] (field_raws [''text''] ''text'' ms))"

definition decode_message :: "string \<Rightarrow> request_message option" where
  "decode_message s =
     (let names = [''Seq'', ''Role'', ''SpanID'', ''Content''] in
      Option.bind (strict_members names s) (\<lambda>ms.
      Option.bind (decode_field dec_int64 0 (field_raws names ''Seq'' ms)) (\<lambda>q.
      Option.bind (decode_field dec_string [] (field_raws names ''Role'' ms)) (\<lambda>role.
      Option.bind (decode_field dec_string [] (field_raws names ''SpanID'' ms)) (\<lambda>span.
        Some \<lparr> rm_seq = q, rm_role = role, rm_span_id = span, rm_content = raw_field names ''Content'' ms \<rparr>)))))"

definition decode_messages :: "string \<Rightarrow> request_message list option" where
  "decode_messages s = Option.bind (array_elements s) (\<lambda>xs. all_some (map decode_message xs))"

definition decode_request :: "string \<Rightarrow> request_message list option" where
  "decode_request s =
     Option.bind (strict_members [''messages''] s) (\<lambda>ms.
       let raws = field_raws [''messages''] ''messages'' ms in
       Option.bind (all_some (map decode_messages raws)) (\<lambda>vs. Some (if vs = [] then [] else last vs)))"

text \<open>\<open>objectFields\<close> keeps the last value of each key; \<open>requireField\<close> looks at its first byte.\<close>

definition require_field :: "(string \<times> string) list \<Rightarrow> string \<Rightarrow> char \<Rightarrow> (loop_error, unit) result" where
  "require_field fs key kind =
     (case map_of (rev fs) key of
        None \<Rightarrow> Inl (MissingKey key)
      | Some v \<Rightarrow> if take 1 (trim_space v) = [kind] then Inr () else Inl (WrongContainer key))"

definition strict :: "'a option \<Rightarrow> (loop_error, 'a) result" where
  "strict x = (case x of None \<Rightarrow> Inl NotStrict | Some y \<Rightarrow> Inr y)"

definition validate_rewrite_target :: "string \<Rightarrow> string \<Rightarrow> (loop_error, unit) result" where
  "validate_rewrite_target point x =
     (case struct_members x of
        None \<Rightarrow> Inl NotAnObject
      | Some fs \<Rightarrow>
          if point = hook_pre_step then
            rbind (strict (decode_request x)) (\<lambda>_. require_field fs ''messages'' CHR ''['')
          else if point = hook_pre_tool then
            rbind (strict (decode_tool_call x)) (\<lambda>call.
              if tc_name call = [] then Inl NoToolName else require_field fs ''args'' CHR ''{'')
          else if point = hook_post_tool then
            rbind (strict (decode_tool_result x)) (\<lambda>res.
              if tr_status res \<noteq> ''ok'' then Inl (NotOkBranch (tr_status res))
              else if tr_reason res \<noteq> None \<or> tr_error res \<noteq> None then Inl OkWithDetails
              else require_field fs ''output'' CHR ''{'')
          else if point = hook_turn_stopping then
            rbind (strict (decode_text x)) (\<lambda>_. require_field fs ''text'' dquote)
          else Inl (UnknownHookPoint point))"

section \<open>The machine\<close>

record 's seams =
  se_submit :: "bool \<Rightarrow> event \<Rightarrow> ('s, string, unit) comp"
  se_replay :: "('s, string, derived_state) comp"
  se_complete :: "request_message list \<Rightarrow> ('s, string, model_response) comp"
  se_invoke :: "tool_call \<Rightarrow> ('s, string, string) comp"
  se_now :: "'s \<Rightarrow> int \<times> 's"
  se_hooks :: "string \<Rightarrow> (string \<Rightarrow> 's \<Rightarrow> decision \<times> 's) list"

record loop_config =
  lc_trace_id :: string
  lc_root_span :: string
  lc_max_steps :: int

definition register_hook ::
    "string \<Rightarrow> (string \<Rightarrow> 's \<Rightarrow> decision \<times> 's) \<Rightarrow> 's seams \<Rightarrow> (loop_error, 's seams) result" where
  "register_hook point h sm =
     (if point \<notin> set valid_hook_points then Inl (UnknownHookPoint point)
      else Inr (sm\<lparr>se_hooks := (se_hooks sm)(point := se_hooks sm point @ [h])\<rparr>))"

definition loop_event ::
    "loop_config \<Rightarrow> string \<Rightarrow> string \<Rightarrow> i64 option \<Rightarrow> i64 option \<Rightarrow> int \<Rightarrow> event" where
  "loop_event cfg kind payload uin uout now =
     \<lparr> ev_seq = 0, ev_ts = now, ev_trace_id = lc_trace_id cfg, ev_span_id = lc_root_span cfg,
       ev_parent_span_id = None, ev_kind = kind, ev_actor = ''parent'', ev_payload = payload,
       ev_raw = None, ev_usage_in = uin, ev_usage_out = uout \<rparr>"

definition emit ::
    "'s seams \<Rightarrow> loop_config \<Rightarrow> bool \<Rightarrow> string \<Rightarrow> string option \<Rightarrow> i64 option \<Rightarrow> i64 option
       \<Rightarrow> ('s, loop_error, unit) comp" where
  "emit sm cfg durable kind payload uin uout =
     (case payload of
        None \<Rightarrow> sfail MarshalFailed
      | Some b \<Rightarrow>
          (\<lambda>s. case se_now sm s of (now, s1) \<Rightarrow>
             smap_error (EmitFailed kind) (se_submit sm durable (loop_event cfg kind b uin uout now)) s1))"

definition emit_boundary :: "'s seams \<Rightarrow> loop_config \<Rightarrow> string \<Rightarrow> ('s, loop_error, unit) comp" where
  "emit_boundary sm cfg kind = emit sm cfg True kind (Some ''{}'') None None"

fun call_hooks :: "(string \<Rightarrow> 's \<Rightarrow> decision \<times> 's) list \<Rightarrow> string \<Rightarrow> ('s, loop_error, decision list) comp" where
  "call_hooks [] payload s = (Inr [], s)"
| "call_hooks (h # hs) payload s =
     (case h payload s of (d, s1) \<Rightarrow> sbind (call_hooks hs payload) (\<lambda>ds. sreturn (d # ds)) s1)"

definition check_decision :: "string \<Rightarrow> decision \<Rightarrow> (loop_error, unit) result" where
  "check_decision point d =
     rbind (validate_decision d) (\<lambda>_.
       if dc_verdict d = verdict_rewrite
       then rmap_error (BadRewriteTarget point) (validate_rewrite_target point (raw_of (dc_rewrite d)))
       else Inr ())"

definition run_hooks ::
    "'s seams \<Rightarrow> loop_config \<Rightarrow> string \<Rightarrow> string \<Rightarrow> ('s, loop_error, decision option \<times> string \<times> bool) comp" where
  "run_hooks sm cfg point payload =
     sbind (call_hooks (se_hooks sm point) payload) (\<lambda>decisions.
     sbind (slift (rfold (\<lambda>_ d. check_decision point d) () decisions)) (\<lambda>_.
     sbind (siter (\<lambda>d. emit sm cfg True kind_hook_verdict (marshal_verdict point d) None None) decisions) (\<lambda>_.
       sreturn (resolve_decisions decisions payload))))"

definition build_request :: "'s seams \<Rightarrow> ('s, loop_error, request_message list) comp" where
  "build_request sm =
     sbind (smap_error ReplayFailed (se_replay sm)) (\<lambda>st. sreturn (request_of (ds_messages st)))"

definition rejected_result :: "decision \<Rightarrow> tool_result" where
  "rejected_result d =
     \<lparr> tr_error = None, tr_output = [], tr_reason = Some (dc_reason d), tr_status = ''rejected'' \<rparr>"

definition emit_result :: "'s seams \<Rightarrow> loop_config \<Rightarrow> tool_result \<Rightarrow> ('s, loop_error, unit) comp" where
  "emit_result sm cfg r = emit sm cfg False kind_tool_result (marshal_tool_result r) None None"

text \<open>A failed \<open>Invoke\<close> is a result of its own, so its error does not end the tool run.\<close>

definition attempt :: "('s, 'e, 'a) comp \<Rightarrow> ('s, 'd, ('e, 'a) result) comp" where
  "attempt m s = (case m s of (r, s1) \<Rightarrow> (Inr r, s1))"

definition run_tool :: "'s seams \<Rightarrow> loop_config \<Rightarrow> tool_call \<Rightarrow> ('s, loop_error, unit) comp" where
  "run_tool sm cfg tc =
     (let call = tc\<lparr>tc_args := (if tc_args tc = [] then ''{}'' else tc_args tc)\<rparr> in
      sbind (emit sm cfg False kind_tool_call (marshal_tool_call call) None None) (\<lambda>_.
      case marshal_tool_call call of
        None \<Rightarrow> sfail MarshalFailed
      | Some payload \<Rightarrow>
          sbind (run_hooks sm cfg hook_pre_tool payload) (\<lambda>(rejected, final_tc, _).
          case rejected of
            Some d \<Rightarrow> emit_result sm cfg (rejected_result d)
          | None \<Rightarrow>
              (case decode_tool_call final_tc of
                 None \<Rightarrow> sfail (BadRewrite hook_pre_tool)
               | Some next_call \<Rightarrow>
                   sbind (attempt (se_invoke sm next_call)) (\<lambda>result.
                   case result of
                     Inl msg \<Rightarrow>
                       emit_result sm cfg \<lparr> tr_error = Some msg, tr_output = [], tr_reason = None, tr_status = ''error'' \<rparr>
                   | Inr out \<Rightarrow>
                       (case marshal_tool_result \<lparr> tr_error = None, tr_output = normalize_output out,
                               tr_reason = None, tr_status = ''ok'' \<rparr> of
                          None \<Rightarrow> sfail MarshalFailed
                        | Some res_payload \<Rightarrow>
                            sbind (run_hooks sm cfg hook_post_tool res_payload) (\<lambda>(rejected_post, final_res, _).
                            case rejected_post of
                              Some d \<Rightarrow> emit_result sm cfg (rejected_result d)
                            | None \<Rightarrow>
                                (case decode_tool_result final_res of
                                   None \<Rightarrow> sfail (BadRewrite hook_post_tool)
                                 | Some final_result \<Rightarrow> emit_result sm cfg final_result))))))))"

definition run_step ::
    "'s seams \<Rightarrow> loop_config \<Rightarrow> request_message list \<Rightarrow> ('s, loop_error, nat) comp" where
  "run_step sm cfg req =
     sbind (emit sm cfg False kind_step_start (Some ''{}'') None None) (\<lambda>_.
     sfinally Joined
       (sbind (smap_error ModelFailed (se_complete sm req)) (\<lambda>resp.
        sbind (emit sm cfg False kind_assistant_message (Some (text_payload (mr_text resp)))
                 (Some (mr_usage_in resp)) (Some (mr_usage_out resp))) (\<lambda>_.
        sbind (siter (run_tool sm cfg) (mr_tool_calls resp)) (\<lambda>_.
          sreturn (length (mr_tool_calls resp))))))
       (emit_boundary sm cfg kind_step_end))"

fun turn_loop :: "'s seams \<Rightarrow> loop_config \<Rightarrow> nat \<Rightarrow> ('s, loop_error, unit) comp" where
  "turn_loop sm cfg 0 = sfail (MaxStepsReached (lc_max_steps cfg))"
| "turn_loop sm cfg (Suc left) =
     sbind (build_request sm) (\<lambda>req.
     case marshal_request req of
       None \<Rightarrow> sfail MarshalFailed
     | Some req_payload \<Rightarrow>
         sbind (run_hooks sm cfg hook_pre_step req_payload) (\<lambda>(rejected, final_req, _).
         if rejected \<noteq> None then sreturn ()
         else (case decode_request final_req of
                 None \<Rightarrow> sfail (BadRewrite hook_pre_step)
               | Some next_req \<Rightarrow>
                   sbind (run_step sm cfg next_req) (\<lambda>tool_calls.
                   if 0 < tool_calls then turn_loop sm cfg left
                   else
                     sbind (run_hooks sm cfg hook_turn_stopping ''{}'') (\<lambda>(rejected, injected, rewrote).
                     if rejected = None \<and> \<not> rewrote then sreturn ()
                     else if rewrote then
                       (case decode_text injected of
                          None \<Rightarrow> sfail (BadRewrite hook_turn_stopping)
                        | Some msg \<Rightarrow>
                            sbind (emit sm cfg False kind_user_message (Some (text_payload msg)) None None)
                              (\<lambda>_. turn_loop sm cfg left))
                     else turn_loop sm cfg left)))))"

definition run_turn :: "'s seams \<Rightarrow> loop_config \<Rightarrow> string \<Rightarrow> ('s, loop_error, unit) comp" where
  "run_turn sm cfg input =
     sbind (emit sm cfg False kind_turn_start (Some ''{}'') None None) (\<lambda>_.
     sfinally Joined
       (sbind (emit sm cfg False kind_user_message (Some (text_payload input)) None None) (\<lambda>_.
          turn_loop sm cfg (nat (lc_max_steps cfg))))
       (emit_boundary sm cfg kind_turn_end))"

section \<open>Shapes of traces\<close>

definition verdicts :: "string list \<Rightarrow> bool" where
  "verdicts ks = list_all (\<lambda>k. k = kind_hook_verdict) ks"

definition tool_trace :: "string list \<Rightarrow> bool" where
  "tool_trace ks \<longleftrightarrow> (\<exists>vs. verdicts vs \<and> ks = kind_tool_call # vs @ [kind_tool_result])"

definition tool_prefix :: "string list \<Rightarrow> bool" where
  "tool_prefix ks \<longleftrightarrow> ks = [] \<or> tool_trace ks \<or> (\<exists>vs. verdicts vs \<and> ks = kind_tool_call # vs)"

text \<open>The inside of a step: the answer of the model and its tool runs, of which the last may have failed.\<close>

definition step_inner :: "string list \<Rightarrow> bool" where
  "step_inner ks \<longleftrightarrow> ks = [] \<or>
     (\<exists>ts l. ks = kind_assistant_message # concat ts @ l \<and> list_all tool_trace ts \<and> tool_prefix l)"

inductive turn_body :: "nat \<Rightarrow> string list \<Rightarrow> bool" where
  body_Nil: "turn_body 0 []"
| body_verdict: "turn_body n ks \<Longrightarrow> turn_body n (kind_hook_verdict # ks)"
| body_message: "turn_body n ks \<Longrightarrow> turn_body n (kind_user_message # ks)"
| body_step: "turn_body n ks \<Longrightarrow> step_inner is \<Longrightarrow>
    turn_body (Suc n) (kind_step_start # is @ kind_step_end # ks)"

lemma verdicts_append [simp]: "verdicts (xs @ ys) \<longleftrightarrow> verdicts xs \<and> verdicts ys"
  by (simp add: verdicts_def)

lemma verdicts_Nil [simp]: "verdicts []"
  by (simp add: verdicts_def)

lemma turn_body_append: "turn_body m xs \<Longrightarrow> turn_body n ys \<Longrightarrow> turn_body (m + n) (xs @ ys)"
  by (induction rule: turn_body.induct) (auto intro: turn_body.intros)

lemma turn_body_verdicts: "verdicts vs \<Longrightarrow> turn_body 0 vs"
  by (induction vs) (auto simp: verdicts_def intro: turn_body.intros)

definition up_to :: "nat \<Rightarrow> string list \<Rightarrow> bool" where
  "up_to n ks \<longleftrightarrow> (\<exists>m \<le> n. turn_body m ks)"

lemma up_to_append: "up_to m xs \<Longrightarrow> up_to n ys \<Longrightarrow> up_to (m + n) (xs @ ys)"
  unfolding up_to_def using turn_body_append add_mono by metis

lemma up_to_verdicts: "verdicts vs \<Longrightarrow> up_to n vs"
  unfolding up_to_def using turn_body_verdicts by blast

lemma up_to_step: "step_inner is \<Longrightarrow> up_to 1 (kind_step_start # is @ [kind_step_end])"
  unfolding up_to_def using body_step [OF body_Nil] by auto

lemma up_to_message: "up_to n [kind_user_message]"
  unfolding up_to_def using body_message [OF body_Nil] by blast

lemma up_to_Nil: "up_to n []"
  unfolding up_to_def using body_Nil by blast

lemma up_to_mono: "up_to m ks \<Longrightarrow> m \<le> n \<Longrightarrow> up_to n ks"
  unfolding up_to_def using order_trans by blast

text \<open>
  A boundary is lost when its submission failed; the error of the run then names it. A step whose
  end was lost is the last thing of its turn.
\<close>

fun blames :: "string \<Rightarrow> loop_error \<Rightarrow> bool" where
  "blames k (EmitFailed k' x) \<longleftrightarrow> k' = k"
| "blames k (Joined e e') \<longleftrightarrow> blames k e \<or> blames k e'"
| "blames k e \<longleftrightarrow> False"

definition lost :: "string \<Rightarrow> (loop_error, 'a) result \<Rightarrow> bool" where
  "lost k r \<longleftrightarrow> (\<exists>e. r = Inl e \<and> blames k e)"

definition torn :: "nat \<Rightarrow> string list \<Rightarrow> bool" where
  "torn n ks \<longleftrightarrow> (\<exists>b is. up_to n (b @ kind_step_start # is @ [kind_step_end]) \<and> step_inner is \<and> ks = b @ kind_step_start # is)"

definition progress :: "nat \<Rightarrow> (loop_error, 'a) result \<Rightarrow> string list \<Rightarrow> bool" where
  "progress n r ks \<longleftrightarrow> up_to n ks \<or> lost kind_step_end r \<and> torn n ks"

lemma torn_step: "step_inner is \<Longrightarrow> torn 1 (kind_step_start # is)"
  unfolding torn_def using up_to_step by (intro exI [of _ "[]"] exI [of _ "is"]) auto

lemma torn_append: "up_to m xs \<Longrightarrow> torn n ys \<Longrightarrow> torn (m + n) (xs @ ys)"
  unfolding torn_def using up_to_append by (metis append.assoc)

lemma progress_append: "up_to m xs \<Longrightarrow> progress n r ys \<Longrightarrow> progress (m + n) r (xs @ ys)"
  unfolding progress_def using up_to_append torn_append by blast

lemma progress_mono: "progress m r ks \<Longrightarrow> m \<le> n \<Longrightarrow> progress n r ks"
  unfolding progress_def torn_def using up_to_mono by blast

text \<open>All verdicts of a hook point are recorded, or none when a decision is malformed.\<close>

definition recorded :: "nat \<Rightarrow> (loop_error, 'a) result \<Rightarrow> string list \<Rightarrow> bool" where
  "recorded n r ks \<longleftrightarrow> verdicts ks \<and>
     (case r of Inr _ \<Rightarrow> length ks = n
      | Inl e \<Rightarrow> ks = [] \<or> e = MarshalFailed \<or> blames kind_hook_verdict e)"

section \<open>The loop over a recording writer\<close>

text \<open>
  The contract of the seams: a submission that succeeds appends its kind to the trace of the
  session's own span, one that fails appends nothing, and the other seams leave this trace alone.
\<close>

locale recording_seams =
  fixes sm :: "'s seams" and tr :: "'s \<Rightarrow> string list"
  assumes submit_ok: "se_submit sm d e s = (Inr u, s') \<Longrightarrow> tr s' = tr s @ [ev_kind e]"
    and submit_err: "se_submit sm d e s = (Inl x, s') \<Longrightarrow> tr s' = tr s"
    and replay_quiet: "se_replay sm s = (r1, s') \<Longrightarrow> tr s' = tr s"
    and complete_quiet: "se_complete sm req s = (r2, s') \<Longrightarrow> tr s' = tr s"
    and invoke_quiet: "se_invoke sm c s = (r3, s') \<Longrightarrow> tr s' = tr s"
    and now_quiet: "se_now sm s = (t, s') \<Longrightarrow> tr s' = tr s"
    and hook_quiet: "h \<in> set (se_hooks sm p) \<Longrightarrow> h x s = (dc, s') \<Longrightarrow> tr s' = tr s"
begin

lemma emit_emits:
  "emits tr (emit sm cfg d k p i out) (\<lambda>r ks. ks = (case r of Inl _ \<Rightarrow> [] | Inr _ \<Rightarrow> [k]))"
proof (cases p)
  case (Some b)
  show ?thesis
  proof (rule emitsI)
    fix s r s'
    assume *: "emit sm cfg d k p i out s = (r, s')"
    obtain t s1 where n: "se_now sm s = (t, s1)" by fastforce
    let ?e = "loop_event cfg k b i out t"
    obtain q s2 where sub: "se_submit sm d ?e s1 = (q, s2)" by fastforce
    have r: "r = rmap_error (EmitFailed k) q" "s' = s2"
      using * n sub by (auto simp: emit_def Some smap_error_def)
    have "ev_kind ?e = k" by (simp add: loop_event_def)
    then have "tr s2 = tr s @ (case q of Inl _ \<Rightarrow> [] | Inr _ \<Rightarrow> [k])"
      using submit_ok [of d ?e s1] submit_err [of d ?e s1] sub now_quiet [OF n] by (cases q) auto
    then show "\<exists>ts. tr s' = tr s @ ts \<and> ts = (case r of Inl _ \<Rightarrow> [] | Inr _ \<Rightarrow> [k])"
      using r by (cases q) (auto simp: rmap_error_def)
  qed
qed (simp add: emit_def emits_fail)

lemma call_hooks_quiet:
  "set hs \<subseteq> set (se_hooks sm p) \<Longrightarrow> emits tr (call_hooks hs x) (\<lambda>r ks. ks = [])"
proof (induction hs)
  case (Cons h hs)
  show ?case
  proof (rule emitsI)
    fix s r s'
    assume *: "call_hooks (h # hs) x s = (r, s')"
    obtain d s1 where h: "h x s = (d, s1)" by fastforce
    have "emits tr (sbind (call_hooks hs x) (\<lambda>ds. sreturn (d # ds))) (\<lambda>r ks. ks = [])"
      using Cons by (intro emits_bind [where P = "\<lambda>r ks. ks = []" and Q = "\<lambda>_ r ks. ks = []"])
        (auto intro: emits_return)
    from emitsD [OF this] * h have "tr s' = tr s1" by fastforce
    moreover have "tr s1 = tr s" using Cons.prems h hook_quiet [of h p x s] by auto
    ultimately show "\<exists>ts. tr s' = tr s @ ts \<and> ts = []" by simp
  qed
qed (auto simp: emits_def)

lemma call_hooks_length: "call_hooks hs x s = (r, s') \<Longrightarrow> \<exists>ds. r = Inr ds \<and> length ds = length hs"
proof (induction hs arbitrary: s r s')
  case (Cons h hs)
  obtain d s1 where "h x s = (d, s1)" by fastforce
  moreover obtain q s2 where q: "call_hooks hs x s1 = (q, s2)" by fastforce
  moreover from Cons.IH [OF q] obtain ds where "q = Inr ds" "length ds = length hs" by blast
  ultimately show ?case using Cons.prems by (auto simp: sbind_def sreturn_def)
qed simp

lemma emit_error: "emit sm cfg d k p i out s = (Inl e, s') \<Longrightarrow> e = MarshalFailed \<or> blames k e"
  by (cases p) (auto simp: emit_def sfail_def smap_error_def rmap_error_def split: prod.splits sum.splits)

lemma record_verdicts:
  "emits tr (siter (\<lambda>d. emit sm cfg True kind_hook_verdict (f d) None None) ds)
     (\<lambda>r ks. verdicts ks \<and> (case r of Inr _ \<Rightarrow> length ks = length ds
        | Inl e \<Rightarrow> e = MarshalFailed \<or> blames kind_hook_verdict e))"
proof (induction ds)
  case (Cons d ds)
  have "emits tr (emit sm cfg True kind_hook_verdict (f d) None None)
      (\<lambda>r ks. case r of Inr _ \<Rightarrow> ks = [kind_hook_verdict]
         | Inl e \<Rightarrow> ks = [] \<and> (e = MarshalFailed \<or> blames kind_hook_verdict e))"
  proof (rule emitsI, goal_cases)
    case (1 s r s')
    from emitsD [OF emit_emits 1] show ?case using 1 emit_error [of cfg True kind_hook_verdict "f d" None None s]
      by (cases r) auto
  qed
  then show ?case unfolding siter.simps
    by (rule emits_bind [OF _ Cons.IH]) (auto simp: verdicts_def split: sum.splits)
qed (simp add: emits_return)

lemma run_hooks_recorded: "emits tr (run_hooks sm cfg p x) (recorded (length (se_hooks sm p)))"
proof -
  have "emits tr (call_hooks (se_hooks sm p) x)
      (\<lambda>r ks. ks = [] \<and> (\<exists>ds. r = Inr ds \<and> length ds = length (se_hooks sm p)))"
  proof (rule emitsI, goal_cases)
    case (1 s r s')
    from emitsD [OF call_hooks_quiet [OF order_refl] 1] call_hooks_length [OF 1] show ?case by auto
  qed
  then show ?thesis
    unfolding run_hooks_def
  proof (rule emits_bind [where Q = "\<lambda>ds. recorded (length ds)"], goal_cases)
    case (1 ds)
    have rec: "emits tr (sbind (siter (\<lambda>d. emit sm cfg True kind_hook_verdict (marshal_verdict p d) None None) ds)
        (\<lambda>_. sreturn (resolve_decisions ds x))) (recorded (length ds))"
      by (rule emits_bind [OF record_verdicts, where Q = "\<lambda>_ r ks. ks = [] \<and> \<not> isl r"])
        (auto simp: recorded_def split: sum.splits intro: emits_return)
    show ?case
      by (rule emits_bind [where P = "\<lambda>r ks. ks = []", OF emits_lift [OF refl] rec]) (auto simp: recorded_def)
  qed auto
qed

lemma run_hooks_emits: "emits tr (run_hooks sm cfg p x) (\<lambda>r ks. verdicts ks)"
  by (rule emits_mono [OF run_hooks_recorded]) (simp add: recorded_def)

definition tool_rest :: "(loop_error, unit) result \<Rightarrow> string list \<Rightarrow> bool" where
  "tool_rest r ks \<longleftrightarrow>
     (\<exists>vs. verdicts vs \<and> ks = vs @ (case r of Inl _ \<Rightarrow> [] | Inr _ \<Rightarrow> [kind_tool_result]))"

lemma tool_rest_verdicts: "verdicts vs \<Longrightarrow> tool_rest r ks \<Longrightarrow> tool_rest r (vs @ ks)"
  unfolding tool_rest_def by (metis append.assoc verdicts_append)

lemma emit_result_emits: "emits tr (emit_result sm cfg x) tool_rest"
  unfolding emit_result_def by (rule emits_mono [OF emit_emits]) (auto simp: tool_rest_def)

lemma fail_rest: "emits tr (sfail e) tool_rest"
  by (rule emits_fail) (simp add: tool_rest_def)

lemma hooks_then_rest:
  "(\<And>x. emits tr (f x) tool_rest) \<Longrightarrow> emits tr (sbind (run_hooks sm cfg p x) f) tool_rest"
  by (rule emits_bind [OF run_hooks_emits, where Q = "\<lambda>_. tool_rest"])
    (auto simp: tool_rest_def [of "Inl _"] intro: tool_rest_verdicts)

lemma invoke_then_rest:
  assumes "\<And>x. emits tr (f x) tool_rest"
  shows "emits tr (sbind (attempt (se_invoke sm c)) f) tool_rest"
proof (rule emits_bind)
  show "emits tr (attempt (se_invoke sm c)) (\<lambda>r ks. ks = [] \<and> \<not> isl r)"
    by (auto simp: emits_def attempt_def split: prod.splits dest: invoke_quiet)
qed (use assms in auto)

lemma run_tool_emits:
  "emits tr (run_tool sm cfg tc) (\<lambda>r ks. tool_prefix ks \<and> (\<not> isl r \<longrightarrow> tool_trace ks))"
  unfolding run_tool_def Let_def
proof (rule emits_bind [OF emit_emits, where Q = "\<lambda>_. tool_rest"], goal_cases)
  case (1 x)
  then show ?case
    by (auto split: option.splits sum.splits prod.splits
        intro!: fail_rest hooks_then_rest invoke_then_rest emit_result_emits)
next
  case (3 x r ts us)
  then show ?case
    by (auto simp: tool_rest_def tool_prefix_def tool_trace_def split: sum.splits)
qed (simp add: tool_prefix_def)

lemma run_tools_emits:
  "emits tr (siter (run_tool sm cfg) tcs)
     (\<lambda>r ks. \<exists>ts l. ks = concat ts @ l \<and> list_all tool_trace ts \<and> tool_prefix l)"
proof (rule emits_iter [OF run_tool_emits], goal_cases)
  case 1
  show ?case by (rule exI [of _ "[]"]) (simp add: tool_prefix_def)
next
  case (2 e ts)
  then show ?case by (intro exI [of _ "[]"] exI [of _ ts]) auto
next
  case (3 r ts us)
  then obtain xs l where "us = concat xs @ l" "list_all tool_trace xs" "tool_prefix l" by blast
  with 3 show ?case by (intro exI [of _ "ts # xs"]) auto
qed

lemma step_inner_emits:
  "emits tr
     (sbind (smap_error ModelFailed (se_complete sm req)) (\<lambda>resp.
      sbind (emit sm cfg False kind_assistant_message (Some (text_payload (mr_text resp)))
               (Some (mr_usage_in resp)) (Some (mr_usage_out resp))) (\<lambda>_.
      sbind (siter (run_tool sm cfg) (mr_tool_calls resp)) (\<lambda>_.
        sreturn (length (mr_tool_calls resp))))))
     (\<lambda>r ks. step_inner ks)"
proof (rule emits_bind [where P = "\<lambda>r ks. ks = []" and Q = "\<lambda>x r ks. step_inner ks"], goal_cases)
  case 1
  show ?case by (rule emits_map_error) (auto simp: emits_def dest: complete_quiet)
next
  case (2 resp)
  show ?case
  proof (rule emits_bind [OF emit_emits, where Q =
        "\<lambda>_ r ks. \<exists>ts l. ks = concat ts @ l \<and> list_all tool_trace ts \<and> tool_prefix l"], goal_cases)
    case (1 x)
    show ?case
      by (rule emits_bind [OF run_tools_emits, where Q = "\<lambda>_ r ks. ks = []"]) (auto intro: emits_return)
  qed (auto simp: step_inner_def)
qed (auto simp: step_inner_def)

lemma boundary_emits:
  "emits tr (emit_boundary sm cfg k) (\<lambda>r ks. \<not> isl r \<and> ks = [k] \<or> lost k r \<and> ks = [])"
proof (rule emitsI)
  fix s r s'
  assume *: "emit_boundary sm cfg k s = (r, s')"
  have "lost k r" if "isl r"
    using * that by (cases r) (auto simp: emit_boundary_def emit_def smap_error_def rmap_error_def lost_def
        split: prod.splits sum.splits)
  moreover from emitsD [OF emit_emits, OF * [unfolded emit_boundary_def]]
  have "tr s' = tr s @ (case r of Inl _ \<Rightarrow> [] | Inr _ \<Rightarrow> [k])" by blast
  ultimately show "\<exists>ts. tr s' = tr s @ ts \<and> (\<not> isl r \<and> ts = [k] \<or> lost k r \<and> ts = [])"
    by (cases r) auto
qed

lemma finally_boundary:
  assumes "emits tr m P"
  shows "emits tr (sfinally Joined m (emit_boundary sm cfg k))
    (\<lambda>r ks. \<exists>q ts. P q ts \<and> ((r = q \<and> ks = ts @ [k]) \<or> lost k r \<and> ks = ts))"
  by (rule emits_finally [OF assms boundary_emits]) (auto simp: lost_def split: sum.splits)

lemma run_step_emits: "emits tr (run_step sm cfg req) (\<lambda>r ks. progress 1 r ks)"
  unfolding run_step_def
proof (rule emits_bind [OF emit_emits, where Q = "\<lambda>_ r ks.
    \<exists>is. step_inner is \<and> (ks = is @ [kind_step_end] \<or> lost kind_step_end r \<and> ks = is)"], goal_cases)
  case (1 x)
  show ?case by (rule emits_mono [OF finally_boundary [OF step_inner_emits]]) auto
next
  case (3 x r ts us)
  then obtain "is" where "step_inner is" "ts = [kind_step_start]"
    "us = is @ [kind_step_end] \<or> lost kind_step_end r \<and> us = is" by auto
  then show ?case using up_to_step torn_step by (auto simp: progress_def)
qed (simp add: progress_def up_to_Nil)

lemma turn_loop_emits: "emits tr (turn_loop sm cfg n) (\<lambda>r ks. progress n r ks)"
proof (induction n)
  case 0
  show ?case by (simp add: emits_fail progress_def up_to_Nil)
next
  case (Suc n)
  have hooks: "emits tr (sbind (run_hooks sm cfg p x) f) (\<lambda>r ks. progress m r ks)"
    if "\<And>y. emits tr (f y) (\<lambda>r ks. progress m r ks)" for p x and f :: "_ \<Rightarrow> ('s, loop_error, unit) comp" and m :: nat
    using progress_append [OF up_to_verdicts [of _ 0], of _ m]
    by (intro emits_bind [OF run_hooks_emits that]) (auto simp: progress_def up_to_verdicts)
  have fail: "emits tr (sfail e) (\<lambda>r ks. progress m r ks)" for e and m :: nat
    by (simp add: emits_fail progress_def up_to_Nil)
  have ret: "emits tr (sreturn x) (\<lambda>r ks. progress m r ks)" for x :: unit and m :: nat
    by (simp add: emits_return progress_def up_to_Nil)
  have msg: "emits tr (sbind (emit sm cfg False kind_user_message p i out) (\<lambda>_. turn_loop sm cfg n)) (\<lambda>r ks. progress n r ks)"
    for p i out
    using progress_append [OF up_to_message [of 0], of n]
    by (intro emits_bind [OF emit_emits Suc.IH]) (auto simp: progress_def up_to_Nil)
  have step: "emits tr (sbind (run_step sm cfg req) f) (\<lambda>r ks. progress (Suc n) r ks)"
    if "\<And>y. emits tr (f y) (\<lambda>r ks. progress n r ks)" for req and f :: "_ \<Rightarrow> ('s, loop_error, unit) comp"
  proof (rule emits_bind [OF run_step_emits that], goal_cases)
    case (1 e ts)
    then have "progress 1 (Inl e :: (loop_error, unit) result) ts" by (simp add: progress_def lost_def)
    then show ?case by (rule progress_mono) simp
  next
    case (2 x r ts us)
    then have "up_to 1 ts" by (simp add: progress_def lost_def)
    from progress_append [OF this 2(2)] show ?case by simp
  qed
  have req: "emits tr (sbind (build_request sm) f) (\<lambda>r ks. progress (Suc n) r ks)"
    if "\<And>y. emits tr (f y) (\<lambda>r ks. progress (Suc n) r ks)" for f :: "_ \<Rightarrow> ('s, loop_error, unit) comp"
  proof (rule emits_bind [where P = "\<lambda>r ks. ks = []", OF _ that])
    show "emits tr (build_request sm) (\<lambda>r ks. ks = [])"
      unfolding build_request_def
      by (rule emits_bind [where P = "\<lambda>r ks. ks = []" and Q = "\<lambda>x r ks. ks = []"])
        (auto simp: emits_def sreturn_def smap_error_def split: prod.splits dest: replay_quiet)
  qed (auto simp: progress_def up_to_Nil)
  show ?case
    unfolding turn_loop.simps
    by (auto intro!: req hooks step fail ret msg Suc.IH split: option.splits prod.splits)
qed

lemma run_turn_emits:
  "emits tr (run_turn sm cfg input)
     (\<lambda>r ks. ks = [] \<and> isl r \<or>
       (\<exists>q body. progress (nat (lc_max_steps cfg)) q body \<and>
         (r = q \<and> ks = kind_turn_start # body @ [kind_turn_end] \<or>
          lost kind_turn_end r \<and> ks = kind_turn_start # body)))"
  unfolding run_turn_def
proof (rule emits_bind [OF emit_emits, where Q = "\<lambda>_ r ks. \<exists>q body. progress (nat (lc_max_steps cfg)) q body \<and>
    (r = q \<and> ks = body @ [kind_turn_end] \<or> lost kind_turn_end r \<and> ks = body)"], goal_cases)
  case (1 x)
  have "emits tr (sbind (emit sm cfg False kind_user_message (Some (text_payload input)) None None)
      (\<lambda>_. turn_loop sm cfg (nat (lc_max_steps cfg)))) (\<lambda>r ks. progress (nat (lc_max_steps cfg)) r ks)"
    using progress_append [OF up_to_message [of 0], of "nat (lc_max_steps cfg)"]
    by (intro emits_bind [OF emit_emits turn_loop_emits]) (auto simp: progress_def up_to_Nil)
  from emits_mono [OF finally_boundary [OF this]] show ?case by auto
qed auto

end

end
