(* ===== verification/Session.thy ===== *)
theory Session
  imports Loop Log_Properties
begin

text \<open>
  A session: the loop of \<open>core/loop\<close> over the writer of \<open>core/logd\<close> and the SQLite store. The loop is the
  only caller, so that a submission is answered by the writer's \<open>process\<close> at once; a submission whose
  context is cancelled may be refused instead. The model, the tools, the clock and the hooks are
  arbitrary functions over a state of their own and have no access to the writer.
\<close>

record 'x agents =
  ag_complete :: "request_message list \<Rightarrow> ('x, string, model_response) comp"
  ag_invoke :: "tool_call \<Rightarrow> ('x, string, string) comp"
  ag_now :: "'x \<Rightarrow> int \<times> 'x"
  ag_hooks :: "string \<Rightarrow> (string \<Rightarrow> 'x \<Rightarrow> decision \<times> 'x) list"
  ag_cancelled :: "'x \<Rightarrow> bool"

type_synonym 'x session = "(table, store_error) core_state \<times> 'x"

definition on_agents :: "('x, 'e, 'a) comp \<Rightarrow> ('x session, 'e, 'a) comp" where
  "on_agents m s = (case m (snd s) of (r, x) \<Rightarrow> (r, (fst s, x)))"

definition session_submit ::
    "redactor \<Rightarrow> (string \<Rightarrow> string option) \<Rightarrow> 'x agents \<Rightarrow> bool \<Rightarrow> event \<Rightarrow> ('x session, string, unit) comp" where
  "session_submit red schema ag durable e s =
     (if \<not> durable \<and> ag_cancelled ag (snd s) then (Inl ''context canceled'', s)
      else (case process (prepare red schema) sqlite_append sqlite_append_batch [(None, False)]
                   (Single e) (fst s) of
              Some (Inr _, c) \<Rightarrow> (Inr (), (c, snd s))
            | Some (Inl _, c) \<Rightarrow> (Inl ''rejected'', (c, snd s))
            | None \<Rightarrow> (Inl ''no answer'', s)))"

definition session_replay :: "('x session, string, derived_state) comp" where
  "session_replay s =
     ((case sqlite_read_from [(None, False)] (co_store (fst s)) 1 of
         Some (Inr es) \<Rightarrow> (case replay es of Inl _ \<Rightarrow> Inl ''replay'' | Inr d \<Rightarrow> Inr d)
       | _ \<Rightarrow> Inl ''read''), s)"

definition session_seams ::
    "redactor \<Rightarrow> (string \<Rightarrow> string option) \<Rightarrow> 'x agents \<Rightarrow> 'x session seams" where
  "session_seams red schema ag =
     \<lparr> se_submit = session_submit red schema ag,
       se_replay = session_replay,
       se_complete = (\<lambda>req. on_agents (ag_complete ag req)),
       se_invoke = (\<lambda>c. on_agents (ag_invoke ag c)),
       se_now = (\<lambda>s. case ag_now ag (snd s) of (t, x) \<Rightarrow> (t, (fst s, x))),
       se_hooks = (\<lambda>p. map (\<lambda>h payload s. case h payload (snd s) of (d, x) \<Rightarrow> (d, (fst s, x))) (ag_hooks ag p)) \<rparr>"

text \<open>The kinds of the rows in the order in which they were inserted.\<close>

definition stored_kinds :: "'x session \<Rightarrow> string list" where
  "stored_kinds s = map ev_kind (co_store (fst s))"

lemma prepare_kind: "prepare red schema e n = Inr p \<Longrightarrow> ev_kind p = ev_kind e"
  by (drule prepare_Inr(1)) (auto simp: redact_event_def Let_def split: option.splits)

lemma append_kind:
  "sqlite_append env t p = Some (Inr t') \<Longrightarrow> map ev_kind t' = map ev_kind t @ [ev_kind p]"
  by (auto elim!: sqlite_append_Inr simp: insert_args_def)

lemma process_single_kind:
  assumes "process (prepare red schema) sqlite_append bat env (Single e) c = Some (a, c')"
  shows "map ev_kind (co_store c') = map ev_kind (co_store c) @ (case a of Inl _ \<Rightarrow> [] | Inr _ \<Rightarrow> [ev_kind e])"
proof (cases "co_terminal c")
  case None
  note p = assms [unfolded process_def None submission.case option.case]
  show ?thesis
  proof (cases "prepare red schema e (co_next c)")
    case (Inl x)
    with p show ?thesis by auto
  next
    case (Inr q)
    note p = p [unfolded Inr sum.case]
    show ?thesis
    proof (cases "sqlite_append env (co_store c) q")
      case (Some r)
      with p prepare_kind [OF Inr] append_kind [of env "co_store c" q] show ?thesis by (cases r) auto
    qed (use p in simp)
  qed
qed (use assms in \<open>auto simp: process_def\<close>)

lemma submit_kind:
  assumes "session_submit red schema ag d e s = (r, s')"
  shows "stored_kinds s' = stored_kinds s @ (case r of Inl _ \<Rightarrow> [] | Inr _ \<Rightarrow> [ev_kind e])"
proof (cases "\<not> d \<and> ag_cancelled ag (snd s)")
  case True
  with assms show ?thesis by (auto simp: session_submit_def)
next
  case False
  note sub = assms [unfolded session_submit_def if_not_P [OF False]]
  let ?p = "process (prepare red schema) sqlite_append sqlite_append_batch [(None, False)] (Single e) (fst s)"
  show ?thesis
  proof (cases ?p)
    case (Some ac)
    then obtain a c where ac: "?p = Some (a, c)" by (cases ac) auto
    from process_single_kind [OF ac] sub [unfolded ac] show ?thesis
      by (cases a) (auto simp: stored_kinds_def)
  qed (use sub in auto)
qed

lemma agents_quiet: "on_agents m s = (r, s') \<Longrightarrow> stored_kinds s' = stored_kinds s"
  by (auto simp: on_agents_def stored_kinds_def split: prod.splits)

lemma session_hook_quiet:
  "h \<in> set (se_hooks (session_seams red schema ag) p) \<Longrightarrow> h x s = (d, s') \<Longrightarrow> stored_kinds s' = stored_kinds s"
  by (auto simp: session_seams_def stored_kinds_def split: prod.splits)

lemma session_now_quiet: "se_now (session_seams red schema ag) s = (t, s') \<Longrightarrow> stored_kinds s' = stored_kinds s"
  by (auto simp: session_seams_def stored_kinds_def split: prod.splits)

lemma session_replay_quiet: "session_replay s = (r, s') \<Longrightarrow> s' = s"
  by (simp add: session_replay_def)

lemma session_seams_sel [simp]:
  "se_submit (session_seams red schema ag) = session_submit red schema ag"
  "se_replay (session_seams red schema ag) = session_replay"
  "se_complete (session_seams red schema ag) req = on_agents (ag_complete ag req)"
  "se_invoke (session_seams red schema ag) c = on_agents (ag_invoke ag c)"
  by (simp_all add: session_seams_def)

interpretation session: recording_seams "session_seams red schema ag" stored_kinds for red schema ag
proof (unfold_locales, goal_cases)
  case (1 d e s u s')
  then show ?case using submit_kind [of red schema ag d e s "Inr u" s'] by simp
next
  case (2 d e s x s')
  then show ?case using submit_kind [of red schema ag d e s "Inl x" s'] by simp
next
  case (3 s r1 s')
  then show ?case using session_replay_quiet by (metis session_seams_sel(2))
next
  case (4 req s r2 s')
  then show ?case using agents_quiet by (metis session_seams_sel(3))
next
  case (5 c s r3 s')
  then show ?case using agents_quiet by (metis session_seams_sel(4))
next
  case (6 s t s')
  then show ?case by (rule session_now_quiet)
next
  case (7 h p x s dc s')
  then show ?case by (rule session_hook_quiet)
qed

section \<open>A concrete turn\<close>

text \<open>The context is cancelled when the clock is read for the second time.\<close>

definition late_cancel :: "nat agents" where
  "late_cancel =
     \<lparr> ag_complete = (\<lambda>_. sfail ''unused''), ag_invoke = (\<lambda>_. sfail ''unused''),
       ag_now = (\<lambda>n. (int n, Suc n)),
       ag_hooks = (\<lambda>p. [\<lambda>x n. (\<lparr> dc_verdict = ''maybe'', dc_rewrite = None, dc_reason = [] \<rparr>, n)]),
       ag_cancelled = (\<lambda>n. 1 < n) \<rparr>"

definition sample_config :: loop_config where
  "sample_config = \<lparr> lc_trace_id = ''t'', lc_root_span = ''root'', lc_max_steps = 3 \<rparr>"

lemma boundary_prepared:
  assumes "utf8_sanitize k \<noteq> ''subagent/spawn''"
  shows "prepare plain_redactor any_schema (loop_event cfg k ''{}'' None None t) n =
    Inr ((loop_event cfg k ''{}'' None None t)\<lparr>ev_seq := n\<rparr>)"
  using assms marshal_raw_empty_object empty_object_parses
  by (intro prepare_plain [of _ "JObj []"]) (simp_all add: loop_event_def)

lemma boundary_submitted:
  assumes "utf8_sanitize k \<noteq> ''subagent/spawn''" "d \<or> \<not> ag_cancelled ag x"
    and "n \<notin> ev_seq ` set t"
  shows "session_submit plain_redactor any_schema ag d (loop_event cfg k ''{}'' None None now)
      (\<lparr> co_store = t, co_next = n, co_terminal = None \<rparr>, x) =
    (Inr (), (\<lparr> co_store = t @ [(loop_event cfg k ''{}'' None None now)\<lparr>ev_seq := n\<rparr>], co_next = n + 1,
       co_terminal = None \<rparr>, x))"
proof -
  have raw: "ev_raw (loop_event cfg k ''{}'' None None now) = None" by (simp add: loop_event_def)
  show ?thesis
    using assms boundary_prepared [OF assms(1)]
    by (simp add: session_submit_def process_def sqlite_append_def decode_raw_def raw sql_insert_def insert_args_def)
qed

lemma kinds_not_spawn:
  "utf8_sanitize kind_turn_start \<noteq> ''subagent/spawn''" "utf8_sanitize kind_turn_end \<noteq> ''subagent/spawn''"
  by (simp_all add: kind_defs utf8_sanitize_ascii_id is_ascii_def)

lemma late_turn:
  "\<exists>s'. run_turn (session_seams plain_redactor any_schema late_cancel) sample_config ''hi'' (open_core [], 0) =
     (Inl (EmitFailed kind_user_message ''context canceled''), s') \<and> stored_kinds s' = [kind_turn_start, kind_turn_end]"
proof -
  let ?sm = "session_seams plain_redactor any_schema late_cancel"
  have now: "se_now ?sm (c, n) = (int n, (c, Suc n))" for c n
    by (simp add: session_seams_def late_cancel_def)
  have canc: "ag_cancelled late_cancel n \<longleftrightarrow> 1 < n" for n by (simp add: late_cancel_def)
  define c1 where "c1 = \<lparr> co_store = [(loop_event sample_config kind_turn_start ''{}'' None None 0)\<lparr>ev_seq := 1\<rparr>],
      co_next = 2, co_terminal = (None :: store_error option) \<rparr>"
  have e1: "emit ?sm sample_config False kind_turn_start (Some ''{}'') None None (open_core [], 0) = (Inr (), (c1, Suc 0))"
    using boundary_submitted [OF kinds_not_spawn(1), of False late_cancel 1 1 "[]" sample_config 0]
    by (simp add: emit_def now smap_error_def rmap_error_def canc open_core_def c1_def)
  have e2: "emit ?sm sample_config False kind_user_message (Some p) None None (c1, Suc 0) =
      (Inl (EmitFailed kind_user_message ''context canceled''), (c1, 2))" for p
    by (simp add: emit_def now smap_error_def rmap_error_def session_submit_def canc)
  define c2 where "c2 = \<lparr> co_store = co_store c1 @ [(loop_event sample_config kind_turn_end ''{}'' None None 2)\<lparr>ev_seq := 2\<rparr>],
      co_next = 3, co_terminal = (None :: store_error option) \<rparr>"
  have e3: "emit_boundary ?sm sample_config kind_turn_end (c1, 2) = (Inr (), (c2, 3))"
    using boundary_submitted [OF kinds_not_spawn(2), of True late_cancel 3 2 "co_store c1" sample_config 2]
    by (simp add: emit_boundary_def emit_def now smap_error_def rmap_error_def c1_def c2_def)
  have "run_turn ?sm sample_config ''hi'' (open_core [], 0) =
      (Inl (EmitFailed kind_user_message ''context canceled''), (c2, 3))"
    by (simp add: run_turn_def sbind_def sfinally_def e1 e2 e3)
  moreover have "stored_kinds (c2, 3 :: nat) = [kind_turn_start, kind_turn_end]"
    by (simp add: stored_kinds_def c2_def c1_def loop_event_def)
  ultimately show ?thesis by blast
qed

section \<open>Properties\<close>





text \<open>
  C27. Conflicting decisions resolve in a fixed way: the first reject wins over everything; without a
  reject the last rewrite replaces the payload as a whole; without either the payload stays.
\<close>

theorem hook_precedence:
  "resolve_decisions ds payload =
     (case filter (\<lambda>d. dc_verdict d = verdict_reject) ds of
        d # _ \<Rightarrow> (Some d, [], False)
      | [] \<Rightarrow>
          (let rewrites = filter (\<lambda>d. dc_verdict d = verdict_rewrite) ds in
           (None, if rewrites = [] then payload else raw_of (dc_rewrite (last rewrites)), rewrites \<noteq> [])))"
proof -
  let ?f = "\<lambda>(final, rewrote) d. if dc_verdict d = verdict_rewrite then (raw_of (dc_rewrite d), True) else (final, rewrote)"
  have fold: "foldl ?f acc ds =
    (let rs = filter (\<lambda>d. dc_verdict d = verdict_rewrite) ds in
     if rs = [] then acc else (raw_of (dc_rewrite (last rs)), True))" for acc
    by (induction ds rule: rev_induct) (auto simp: Let_def split: prod.splits)
  show ?thesis
  proof (cases "find (\<lambda>d. dc_verdict d = verdict_reject) ds")
    case None
    then have "filter (\<lambda>d. dc_verdict d = verdict_reject) ds = []" by (auto simp: find_None_iff filter_empty_conv)
    with None show ?thesis by (simp add: resolve_decisions_def fold Let_def)
  next
    case (Some d)
    then have "\<exists>xs. filter (\<lambda>d. dc_verdict d = verdict_reject) ds = d # xs"
      by (induction ds) (auto split: if_splits)
    with Some show ?thesis by (auto simp: resolve_decisions_def)
  qed
qed

end
