(* ===== verification/Payloads.thy ===== *)
theory Payloads
  imports Loop
begin

text \<open>
  The payload structs of \<open>contracts/gen/events.gen.go\<close> that the audit, the observer and the relay read,
  and their decoding as \<open>json.Unmarshal\<close> does it: unknown keys are ignored, a value of the wrong type
  in any field is an error, null leaves a string or number as it is and clears a slice or pointer.
\<close>

fun decode_slice :: "(string \<Rightarrow> 'a list option) \<Rightarrow> 'a list \<Rightarrow> string list \<Rightarrow> 'a list option" where
  "decode_slice dec v [] = Some v"
| "decode_slice dec v (raw # raws) =
     (if raw = ''null'' then decode_slice dec [] raws
      else Option.bind (dec raw) (\<lambda>v'. decode_slice dec v' raws))"

definition dec_list :: "'a \<Rightarrow> (string \<Rightarrow> 'a option) \<Rightarrow> string \<Rightarrow> 'a list option" where
  "dec_list zero dec raw =
     Option.bind (array_elements raw) (\<lambda>xs. all_some (map (\<lambda>x. if x = ''null'' then Some zero else dec x) xs))"

definition str_field :: "string list \<Rightarrow> (string \<times> string) list \<Rightarrow> string \<Rightarrow> string option" where
  "str_field names ms f = decode_field dec_string [] (field_raws names f ms)"

definition ptr_field :: "string list \<Rightarrow> (string \<times> string) list \<Rightarrow> string \<Rightarrow> string option option" where
  "ptr_field names ms f = decode_ptr dec_string None (field_raws names f ms)"

definition int_field :: "string list \<Rightarrow> (string \<times> string) list \<Rightarrow> string \<Rightarrow> int option" where
  "int_field names ms f = decode_field dec_int64 0 (field_raws names f ms)"

section \<open>Effects\<close>

record egress_payload =
  eg_at_ms :: int
  eg_decision :: string
  eg_domain :: string
  eg_method :: string
  eg_reason :: "string option"
  eg_size_bytes :: int

definition decode_egress :: "string \<Rightarrow> egress_payload option" where
  "decode_egress s =
     (let names = [''at_ms'', ''decision'', ''domain'', ''method'', ''reason'', ''size_bytes''] in
      Option.bind (struct_members s) (\<lambda>ms.
      Option.bind (int_field names ms ''at_ms'') (\<lambda>at_ms.
      Option.bind (str_field names ms ''decision'') (\<lambda>decision.
      Option.bind (str_field names ms ''domain'') (\<lambda>domain.
      Option.bind (str_field names ms ''method'') (\<lambda>meth.
      Option.bind (ptr_field names ms ''reason'') (\<lambda>reason.
      Option.bind (int_field names ms ''size_bytes'') (\<lambda>size_bytes.
        Some \<lparr> eg_at_ms = at_ms, eg_decision = decision, eg_domain = domain, eg_method = meth,
               eg_reason = reason, eg_size_bytes = size_bytes \<rparr>))))))))"

record fs_change =
  fc_change_type :: string
  fc_hash :: string
  fc_path :: string

definition decode_fs_change :: "string \<Rightarrow> fs_change option" where
  "decode_fs_change s =
     (let names = [''change_type'', ''hash'', ''path''] in
      Option.bind (struct_members s) (\<lambda>ms.
      Option.bind (str_field names ms ''change_type'') (\<lambda>ct.
      Option.bind (str_field names ms ''hash'') (\<lambda>h.
      Option.bind (str_field names ms ''path'') (\<lambda>p.
        Some \<lparr> fc_change_type = ct, fc_hash = h, fc_path = p \<rparr>)))))"

definition decode_fs_changed :: "string \<Rightarrow> fs_change list option" where
  "decode_fs_changed s =
     Option.bind (struct_members s) (\<lambda>ms.
       decode_slice (dec_list \<lparr> fc_change_type = [], fc_hash = [], fc_path = [] \<rparr> decode_fs_change) []
         (field_raws [''changes''] ''changes'' ms))"

section \<open>Spawn\<close>

record spawn_budget =
  sb_max_depth :: int
  sb_time_ms :: int
  sb_tokens :: int

definition decode_spawn_budget :: "spawn_budget \<Rightarrow> string \<Rightarrow> spawn_budget option" where
  "decode_spawn_budget b s =
     (let names = [''max_depth'', ''time_ms'', ''tokens''] in
      Option.bind (struct_members s) (\<lambda>ms.
      Option.bind (decode_field dec_int64 (sb_max_depth b) (field_raws names ''max_depth'' ms)) (\<lambda>d.
      Option.bind (decode_field dec_int64 (sb_time_ms b) (field_raws names ''time_ms'' ms)) (\<lambda>t.
      Option.bind (decode_field dec_int64 (sb_tokens b) (field_raws names ''tokens'' ms)) (\<lambda>n.
        Some \<lparr> sb_max_depth = d, sb_time_ms = t, sb_tokens = n \<rparr>)))))"

fun decode_budgets :: "spawn_budget \<Rightarrow> string list \<Rightarrow> spawn_budget option" where
  "decode_budgets b [] = Some b"
| "decode_budgets b (raw # raws) = Option.bind (decode_spawn_budget b raw) (\<lambda>b'. decode_budgets b' raws)"

record spawn_mount =
  mo_mode :: string
  mo_source_path :: string
  mo_target_path :: string
  mo_upper_ref :: string

definition decode_spawn_mount :: "string \<Rightarrow> spawn_mount option" where
  "decode_spawn_mount s =
     (let names = [''mode'', ''source_path'', ''target_path'', ''upper_ref''] in
      Option.bind (struct_members s) (\<lambda>ms.
      Option.bind (str_field names ms ''mode'') (\<lambda>m.
      Option.bind (str_field names ms ''source_path'') (\<lambda>src.
      Option.bind (str_field names ms ''target_path'') (\<lambda>tgt.
      Option.bind (str_field names ms ''upper_ref'') (\<lambda>u.
        Some \<lparr> mo_mode = m, mo_source_path = src, mo_target_path = tgt, mo_upper_ref = u \<rparr>))))))"

record spawn_ext =
  se_artifact_digest :: string
  se_integrity :: string
  se_name :: string
  se_source :: string
  se_version :: string

definition decode_spawn_ext :: "string \<Rightarrow> spawn_ext option" where
  "decode_spawn_ext s =
     (let names = [''artifact_digest'', ''integrity'', ''name'', ''source'', ''version''] in
      Option.bind (struct_members s) (\<lambda>ms.
      Option.bind (str_field names ms ''artifact_digest'') (\<lambda>a.
      Option.bind (str_field names ms ''integrity'') (\<lambda>i.
      Option.bind (str_field names ms ''name'') (\<lambda>n.
      Option.bind (str_field names ms ''source'') (\<lambda>src.
      Option.bind (str_field names ms ''version'') (\<lambda>v.
        Some \<lparr> se_artifact_digest = a, se_integrity = i, se_name = n, se_source = src, se_version = v \<rparr>)))))))"

record spawn_payload =
  sp_adapter :: string
  sp_budget :: spawn_budget
  sp_control_mode :: string
  sp_depth :: int
  sp_extensions :: "spawn_ext list"
  sp_image_digest :: "string option"
  sp_instruction :: string
  sp_mounts :: "spawn_mount list"
  sp_profile_id :: "string option"
  sp_session_mode :: "string option"
  sp_world_backend :: string

definition spawn_fields :: "string list" where
  "spawn_fields = [''adapter'', ''budget'', ''control_mode'', ''depth'', ''extensions'', ''image_digest'',
     ''instruction'', ''mounts'', ''profile_id'', ''session_mode'', ''world_backend'']"

definition decode_spawn :: "string \<Rightarrow> spawn_payload option" where
  "decode_spawn s =
     Option.bind (struct_members s) (\<lambda>ms.
     let raws = (\<lambda>f. field_raws spawn_fields f ms); str = str_field spawn_fields ms; ptr = ptr_field spawn_fields ms in
     Option.bind (str ''adapter'') (\<lambda>adapter.
     Option.bind (decode_budgets \<lparr> sb_max_depth = 0, sb_time_ms = 0, sb_tokens = 0 \<rparr> (raws ''budget'')) (\<lambda>budget.
     Option.bind (str ''control_mode'') (\<lambda>control_mode.
     Option.bind (int_field spawn_fields ms ''depth'') (\<lambda>depth.
     Option.bind (decode_slice (dec_list \<lparr> se_artifact_digest = [], se_integrity = [], se_name = [],
         se_source = [], se_version = [] \<rparr> decode_spawn_ext) [] (raws ''extensions'')) (\<lambda>extensions.
     Option.bind (ptr ''image_digest'') (\<lambda>image_digest.
     Option.bind (str ''instruction'') (\<lambda>instruction.
     Option.bind (decode_slice (dec_list \<lparr> mo_mode = [], mo_source_path = [], mo_target_path = [],
         mo_upper_ref = [] \<rparr> decode_spawn_mount) [] (raws ''mounts'')) (\<lambda>mounts.
     Option.bind (ptr ''profile_id'') (\<lambda>profile_id.
     Option.bind (ptr ''session_mode'') (\<lambda>session_mode.
     Option.bind (str ''world_backend'') (\<lambda>world_backend.
       Some \<lparr> sp_adapter = adapter, sp_budget = budget, sp_control_mode = control_mode, sp_depth = depth,
              sp_extensions = extensions, sp_image_digest = image_digest, sp_instruction = instruction,
              sp_mounts = mounts, sp_profile_id = profile_id, sp_session_mode = session_mode,
              sp_world_backend = world_backend \<rparr>))))))))))))"

section \<open>Tool calls, approvals and results\<close>

record subagent_tool_call =
  st_args :: string
  st_call_id :: string
  st_name :: string

definition decode_subagent_tool_call :: "string \<Rightarrow> subagent_tool_call option" where
  "decode_subagent_tool_call s =
     (let names = [''args'', ''call_id'', ''name''] in
      Option.bind (struct_members s) (\<lambda>ms.
      Option.bind (str_field names ms ''call_id'') (\<lambda>c.
      Option.bind (str_field names ms ''name'') (\<lambda>n.
        Some \<lparr> st_args = raw_field names ''args'' ms, st_call_id = c, st_name = n \<rparr>))))"

definition unmarshal_tool_call :: "string \<Rightarrow> tool_call option" where
  "unmarshal_tool_call s =
     (let names = [''args'', ''name''] in
      Option.bind (struct_members s) (\<lambda>ms.
      Option.bind (str_field names ms ''name'') (\<lambda>n.
        Some \<lparr> tc_name = n, tc_args = raw_field names ''args'' ms \<rparr>)))"

record approval_request =
  ar_args :: string
  ar_call_id :: string
  ar_name :: string
  ar_reason :: "string option"
  ar_request_id :: string

definition decode_approval_request :: "string \<Rightarrow> approval_request option" where
  "decode_approval_request s =
     (let names = [''args'', ''call_id'', ''name'', ''reason'', ''request_id''] in
      Option.bind (struct_members s) (\<lambda>ms.
      Option.bind (str_field names ms ''call_id'') (\<lambda>c.
      Option.bind (str_field names ms ''name'') (\<lambda>n.
      Option.bind (ptr_field names ms ''reason'') (\<lambda>r.
      Option.bind (str_field names ms ''request_id'') (\<lambda>q.
        Some \<lparr> ar_args = raw_field names ''args'' ms, ar_call_id = c, ar_name = n, ar_reason = r,
               ar_request_id = q \<rparr>))))))"

record policy_decision =
  pd_actor_ref :: "string option"
  pd_correlation_id :: "string option"
  pd_decision :: string
  pd_decision_source :: "string option"
  pd_human_intent_id :: "string option"
  pd_operation_id :: "string option"
  pd_profile_id :: string
  pd_reason :: "string option"
  pd_request_id :: "string option"
  pd_response_id :: "string option"

definition policy_decision_fields :: "string list" where
  "policy_decision_fields = [''actor_ref'', ''correlation_id'', ''decision'', ''decision_source'',
     ''human_intent_id'', ''operation_id'', ''profile_id'', ''reason'', ''request_id'', ''response_id'']"

definition decode_policy_decision :: "string \<Rightarrow> policy_decision option" where
  "decode_policy_decision s =
     Option.bind (struct_members s) (\<lambda>ms.
     let str = str_field policy_decision_fields ms; ptr = ptr_field policy_decision_fields ms in
     Option.bind (ptr ''actor_ref'') (\<lambda>actor_ref.
     Option.bind (ptr ''correlation_id'') (\<lambda>correlation_id.
     Option.bind (str ''decision'') (\<lambda>decision.
     Option.bind (ptr ''decision_source'') (\<lambda>decision_source.
     Option.bind (ptr ''human_intent_id'') (\<lambda>human_intent_id.
     Option.bind (ptr ''operation_id'') (\<lambda>operation_id.
     Option.bind (str ''profile_id'') (\<lambda>profile_id.
     Option.bind (ptr ''reason'') (\<lambda>reason.
     Option.bind (ptr ''request_id'') (\<lambda>request_id.
     Option.bind (ptr ''response_id'') (\<lambda>response_id.
       Some \<lparr> pd_actor_ref = actor_ref, pd_correlation_id = correlation_id, pd_decision = decision,
              pd_decision_source = decision_source, pd_human_intent_id = human_intent_id,
              pd_operation_id = operation_id, pd_profile_id = profile_id, pd_reason = reason,
              pd_request_id = request_id, pd_response_id = response_id \<rparr>)))))))))))"

record done_payload =
  dn_result :: string
  dn_status :: string

definition decode_done :: "string \<Rightarrow> done_payload option" where
  "decode_done s =
     (let names = [''result'', ''status''] in
      Option.bind (struct_members s) (\<lambda>ms.
      Option.bind (str_field names ms ''result'') (\<lambda>r.
      Option.bind (str_field names ms ''status'') (\<lambda>st.
        Some \<lparr> dn_result = r, dn_status = st \<rparr>))))"

definition decode_message_text :: "string \<Rightarrow> string option" where
  "decode_message_text s = Option.bind (struct_members s) (\<lambda>ms. str_field [''text''] ms ''text'')"

section \<open>Lemmas: decoding what was printed\<close>

lemma raw_elements_loop_elements:
  assumes "list_all2 (parses k) ts vs" "k \<le> max_nesting"
  shows "raw_elements_loop (length ts) (join_with '','' ts @ '']'') = ts"
  using assms(1)
proof (induction ts arbitrary: vs)
  case (Cons t ts)
  then obtain v vs' where p: "parses k t v" and vs: "list_all2 (parses k) ts vs'"
    by (auto simp: list_all2_Cons1)
  define rest where "rest = (if ts = [] then '']'' else '','' @ join_with '','' ts @ '']'')"
  have txt_eq: "join_with '','' (t # ts) @ '']'' = t @ rest"
    by (simp add: rest_def join_with_Cons)
  have "parse_value (json_fuel (t @ rest)) max_nesting (t @ rest) = Some (v, rest)"
    using assms(2) by (intro parses_value [OF p]) (auto simp: json_fuel_def rest_def value_end_def)
  moreover have "skip_ws rest = rest" by (simp add: rest_def)
  moreover have "skip_ws (join_with '','' ts @ '']'') = join_with '','' ts @ '']''" if "ts \<noteq> []"
    using parses_elements(2) [OF that vs, of k "[]" "2 * length (join_with '','' ts @ '']'' @ []) + 2"] by simp
  ultimately show ?case
    using Cons.IH [OF vs] unfolding txt_eq length_Cons raw_elements_loop.simps
    by (simp add: slice_before_def rest_def split: if_splits)
qed simp

lemma array_elements_print:
  assumes "list_all2 (parses k) ts vs" "Suc k \<le> max_nesting"
  shows "array_elements (''['' @ join_with '','' ts @ '']'') = Some ts"
proof -
  let ?s = "join_with '','' ts @ '']''"
  have "json_parse (''['' @ ?s) = Some (JArr vs)"
    by (rule parses_json_parse [OF parses_array [OF assms(1)] assms(2)])
  moreover have "skip_ws ?s = ?s"
    using parses_elements(2) [OF _ assms(1), of k "[]" "2 * length (?s @ []) + 2"] by (cases "ts = []") auto
  moreover have "length vs = length ts" using assms(1) by (simp add: list_all2_lengthD)
  ultimately show ?thesis
    using raw_elements_loop_elements [OF assms(1)] assms(2) by (simp add: array_elements_def)
qed

lemma struct_members_fields:
  assumes "\<forall>m\<in>set ms. is_ascii (fst m) \<and> (\<exists>v. parses k (snd m) v)" "Suc k \<le> max_nesting"
  shows "struct_members (print_object ms) = Some ms" and "\<exists>v. parses (Suc k) (print_object ms) v"
proof -
  obtain kvs where kvs: "list_all2 (parses_member k) ms kvs"
    using parses_members_exist [of ms k] assms(1) by blast
  have "map (\<lambda>m. (utf8_sanitize (fst m), snd m)) ms = ms"
    using assms(1) by (intro map_idI) (simp add: utf8_sanitize_ascii_id)
  with struct_members_print [OF kvs assms(2)] show "struct_members (print_object ms) = Some ms" by simp
  from parses_object [OF kvs] show "\<exists>v. parses (Suc k) (print_object ms) v" by blast
qed

lemma parses_string_exists [simp]: "\<exists>v. parses k (quote_json html s) v"
  using parses_string by blast

lemma field_raws_known:
  "list_all (\<lambda>m. fst m \<in> set names) ms \<Longrightarrow> field_raws names f ms = map snd (filter (\<lambda>m. fst m = f) ms)"
  by (induction ms) (auto simp: field_raws_def)

end
