(* ===== verification/Intent_Audit.thy ===== *)
theory Intent_Audit
  imports Payloads
begin

text \<open>
  The audit of intents against effects (\<open>core/audit/audit.go\<close>): the canonical form of workspace
  paths, the extraction of filesystem intents and effects from an event log, and their one-to-one
  matching. Go's iteration over the groups is followed by a sort of distinct keys, so its order
  does not matter; a group holds its members in the order of the log.
\<close>

section \<open>Paths\<close>

datatype audit_error =
    UnmatchableIntent
  | AmbiguousIntent int
  | AmbiguousEffect int
  | IncompleteObservation
  | EmptyTrace int
  | MixedTraces string string
  | BadPayload int
  | EmptySpan int
  | ControlModeConflict string int
  | BadIdentity int
  | AtSeq int audit_error
  | EffectPath int audit_error
  | BadEnvelopeOf int

definition canonical_path :: "string \<Rightarrow> string \<Rightarrow> (audit_error, string) result" where
  "canonical_path raw workspace_target =
     (if raw = [] \<or> \<not> utf8_valid raw \<or> CHR 0x00 \<in> set raw then Inl UnmatchableIntent
      else if backslash \<in> set raw then Inl UnmatchableIntent
      else if workspace_target = [] \<or> \<not> utf8_valid workspace_target \<or> \<not> is_abs workspace_target
        then Inl UnmatchableIntent
      else (let mount = path_clean workspace_target in
            if mount = ''.'' \<or> \<not> is_abs mount then Inl UnmatchableIntent
            else (let clean = path_clean raw in
                  if clean = ''.'' then Inl UnmatchableIntent
                  else if is_abs clean \<and> clean \<noteq> mount \<and> \<not> prefix (mount @ [slash]) clean
                    then Inl UnmatchableIntent
                  else (let rel = (if is_abs clean then trim_prefix (trim_prefix clean mount) [slash] else clean) in
                        if rel = [] \<or> rel = ''.'' \<or> rel = ''..'' \<or> prefix ''../'' rel \<or> is_abs rel
                        then Inl UnmatchableIntent else Inr rel))))"

definition canonical_effect_path :: "string \<Rightarrow> (audit_error, string) result" where
  "canonical_effect_path raw =
     (if is_abs raw then Inl UnmatchableIntent else canonical_path raw ''/workspace'')"

section \<open>Intents, effects and rows\<close>

record intent =
  in_trace_id :: string
  in_span_id :: string
  in_parent_span_id :: string
  in_actor :: string
  in_call_id :: string
  in_name :: string
  in_path :: string
  in_change_type :: string
  in_seq :: int

record effect =
  ef_trace_id :: string
  ef_span_id :: string
  ef_parent_span_id :: string
  ef_actor :: string
  ef_path :: string
  ef_change_type :: string
  ef_hash :: string
  ef_seq :: int

datatype classification = ReportedUnobserved | ObservedUnreported | Matched

record row =
  rw_classification :: classification
  rw_trace_id :: string
  rw_span_id :: string
  rw_parent_span_id :: string
  rw_actor :: string
  rw_path :: string
  rw_intent_seq :: int
  rw_effect_seq :: int
  rw_call_id :: string
  rw_name :: string
  rw_reported_type :: string
  rw_observed_type :: string
  rw_reason :: string

record report =
  re_rows :: "row list"
  re_effect_complete :: bool
  re_net_changes_known :: bool
  re_control_mode :: "string \<rightharpoonup> string"

definition change_added :: string where "change_added = ''added''"
definition change_modified :: string where "change_modified = ''modified''"
definition change_deleted :: string where "change_deleted = ''deleted''"

definition filesystem_tool :: "unicode_lower \<Rightarrow> string \<Rightarrow> bool" where
  "filesystem_tool ul name \<longleftrightarrow> to_lower ul name \<in> set [''write'', ''create'', ''touch'', ''write_file'',
     ''edit'', ''modify'', ''update'', ''delete'', ''remove'', ''rm'']"

definition change_type_for_tool :: "unicode_lower \<Rightarrow> string \<Rightarrow> string" where
  "change_type_for_tool ul name =
     (let n = to_lower ul name in
      if n \<in> set [''delete'', ''remove'', ''rm''] then change_deleted
      else if n \<in> set [''edit'', ''modify'', ''update''] then change_modified
      else change_added)"

text \<open>The first of the keys whose value is a string or null; a map keeps the last value of a key.\<close>

definition json_string_value :: "string \<Rightarrow> string option" where
  "json_string_value raw = (if raw = ''null'' then Some [] else dec_string raw)"

definition path_argument :: "string \<Rightarrow> string option" where
  "path_argument raw =
     (case struct_members raw of
        None \<Rightarrow> None
      | Some ms \<Rightarrow>
          (case List.map_filter (\<lambda>key. Option.bind (map_of (rev ms) key) json_string_value)
                  [''path'', ''file_path'', ''filename''] of
             [] \<Rightarrow> None | p # _ \<Rightarrow> Some p))"

definition compatible :: "string \<Rightarrow> string \<Rightarrow> bool" where
  "compatible reported observed =
     (if reported = change_deleted then observed = change_deleted
      else observed = change_added \<or> observed = change_modified)"

definition first_non_empty :: "string list \<Rightarrow> string" where
  "first_non_empty vs = (case find (\<lambda>v. v \<noteq> []) vs of None \<Rightarrow> [] | Some v \<Rightarrow> v)"

section \<open>Matching\<close>

definition match_key :: "string \<Rightarrow> string \<Rightarrow> string" where
  "match_key span p = span @ [CHR 0x00] @ p"

definition intent_key :: "intent \<Rightarrow> string" where
  "intent_key i = match_key (in_span_id i) (in_path i)"

definition effect_key :: "effect \<Rightarrow> string" where
  "effect_key e = match_key (ef_span_id e) (ef_path e)"

definition identity_of :: "string \<Rightarrow> int \<Rightarrow> string" where
  "identity_of key seq = key @ [CHR 0x00] @ show_int seq"

fun first_repeat :: "string list \<Rightarrow> (string \<times> int) list \<Rightarrow> int option" where
  "first_repeat seen [] = None"
| "first_repeat seen ((key, seq) # xs) =
     (if identity_of key seq \<in> set seen then Some seq else first_repeat (identity_of key seq # seen) xs)"

definition matched_row :: "intent \<Rightarrow> effect \<Rightarrow> row" where
  "matched_row i e =
     \<lparr> rw_classification = Matched, rw_trace_id = in_trace_id i, rw_span_id = in_span_id i,
       rw_parent_span_id = first_non_empty [in_parent_span_id i, ef_parent_span_id e],
       rw_actor = first_non_empty [in_actor i, ef_actor e], rw_path = in_path i,
       rw_intent_seq = in_seq i, rw_effect_seq = ef_seq e, rw_call_id = in_call_id i,
       rw_name = in_name i, rw_reported_type = in_change_type i, rw_observed_type = ef_change_type e,
       rw_reason = [] \<rparr>"

definition reported_row :: "intent \<Rightarrow> row" where
  "reported_row i =
     \<lparr> rw_classification = ReportedUnobserved, rw_trace_id = in_trace_id i, rw_span_id = in_span_id i,
       rw_parent_span_id = in_parent_span_id i, rw_actor = in_actor i, rw_path = in_path i,
       rw_intent_seq = in_seq i, rw_effect_seq = 0, rw_call_id = in_call_id i, rw_name = in_name i,
       rw_reported_type = in_change_type i, rw_observed_type = [],
       rw_reason = ''effect not observed'' \<rparr>"

definition observed_row :: "string \<Rightarrow> effect \<Rightarrow> row" where
  "observed_row reason e =
     \<lparr> rw_classification = ObservedUnreported, rw_trace_id = ef_trace_id e, rw_span_id = ef_span_id e,
       rw_parent_span_id = ef_parent_span_id e, rw_actor = ef_actor e, rw_path = ef_path e,
       rw_intent_seq = 0, rw_effect_seq = ef_seq e, rw_call_id = [], rw_name = [],
       rw_reported_type = [], rw_observed_type = ef_change_type e, rw_reason = reason \<rparr>"

text \<open>The loop over the positions of two sorted groups.\<close>

fun match_group :: "intent list \<Rightarrow> effect list \<Rightarrow> row list" where
  "match_group [] [] = []"
| "match_group (i # is) [] = reported_row i # match_group is []"
| "match_group [] (e # es) = observed_row ''intent not reported'' e # match_group [] es"
| "match_group (i # is) (e # es) =
     (if compatible (in_change_type i) (ef_change_type e) then [matched_row i e]
      else [reported_row i, observed_row ''reported change incompatible with observed change'' e]) @
     match_group is es"

definition match_keys :: "intent list \<Rightarrow> effect list \<Rightarrow> string list" where
  "match_keys intents effects = sort (uniq (map intent_key intents @ map effect_key effects))"

definition match :: "intent list \<Rightarrow> effect list \<Rightarrow> bool \<Rightarrow> (audit_error, row list) result" where
  "match intents effects net_changes_known =
     (if \<not> net_changes_known \<and> intents \<noteq> [] then Inl IncompleteObservation
      else (case first_repeat [] (map (\<lambda>i. (intent_key i, in_seq i)) intents) of
              Some q \<Rightarrow> Inl (AmbiguousIntent q)
            | None \<Rightarrow>
                (case first_repeat [] (map (\<lambda>e. (effect_key e, ef_seq e)) effects) of
                   Some q \<Rightarrow> Inl (AmbiguousEffect q)
                 | None \<Rightarrow>
                     Inr (concat (map (\<lambda>k.
                       match_group (sort_key in_seq (filter (\<lambda>i. intent_key i = k) intents))
                                   (sort_key ef_seq (filter (\<lambda>e. effect_key e = k) effects)))
                       (match_keys intents effects))))))"

section \<open>Reading the log\<close>

record audit_state =
  au_trace :: string
  au_intents :: "intent list"
  au_effects :: "effect list"
  au_report :: report

definition parent_span_id :: "event \<Rightarrow> string" where
  "parent_span_id e = raw_of (ev_parent_span_id e)"

definition intent_of :: "unicode_lower \<Rightarrow> event \<Rightarrow> string \<Rightarrow> string \<Rightarrow> string \<Rightarrow> intent" where
  "intent_of ul e call_id name p =
     \<lparr> in_trace_id = ev_trace_id e, in_span_id = ev_span_id e, in_parent_span_id = parent_span_id e,
       in_actor = ev_actor e, in_call_id = call_id, in_name = name, in_path = p,
       in_change_type = change_type_for_tool ul name, in_seq = ev_seq e \<rparr>"

definition audit_spawn :: "event \<Rightarrow> audit_state \<Rightarrow> (audit_error, audit_state) result" where
  "audit_spawn e st =
     (case decode_spawn (ev_payload e) of
        None \<Rightarrow> Inl (BadPayload (ev_seq e))
      | Some p \<Rightarrow>
          (let modes = re_control_mode (au_report st) in
           if ev_span_id e = [] then Inl (EmptySpan (ev_seq e))
           else if modes (ev_span_id e) \<noteq> None \<and> modes (ev_span_id e) \<noteq> Some (sp_control_mode p)
             then Inl (ControlModeConflict (ev_span_id e) (ev_seq e))
           else Inr (st\<lparr>au_report := (au_report st)
                  \<lparr>re_control_mode := modes(ev_span_id e \<mapsto> sp_control_mode p)\<rparr>\<rparr>)))"

definition audit_call ::
    "unicode_lower \<Rightarrow> string \<Rightarrow> event \<Rightarrow> bool \<Rightarrow> string \<Rightarrow> string \<Rightarrow> string \<Rightarrow> audit_state
       \<Rightarrow> (audit_error, audit_state) result" where
  "audit_call ul target e bad_identity call_id name args st =
     (case path_argument args of
        None \<Rightarrow> Inr st
      | Some p \<Rightarrow>
          if \<not> filesystem_tool ul name then Inr st
          else if bad_identity then Inl (BadIdentity (ev_seq e))
          else rbind (rmap_error (AtSeq (ev_seq e)) (canonical_path p target)) (\<lambda>canonical.
            Inr (st\<lparr>au_intents := au_intents st @ [intent_of ul e call_id name canonical]\<rparr>)))"

definition effect_of :: "event \<Rightarrow> fs_change \<Rightarrow> string \<Rightarrow> effect" where
  "effect_of e c p =
     \<lparr> ef_trace_id = ev_trace_id e, ef_span_id = ev_span_id e, ef_parent_span_id = parent_span_id e,
       ef_actor = ev_actor e, ef_path = p, ef_change_type = fc_change_type c, ef_hash = fc_hash c,
       ef_seq = ev_seq e \<rparr>"

definition audit_effects :: "event \<Rightarrow> audit_state \<Rightarrow> (audit_error, audit_state) result" where
  "audit_effects e st =
     (if ev_actor e \<noteq> ''collector'' \<or> ev_span_id e = [] \<or> ev_trace_id e = [] then Inl (BadEnvelopeOf (ev_seq e))
      else (case decode_fs_changed (ev_payload e) of
              None \<Rightarrow> Inl (BadPayload (ev_seq e))
            | Some changes \<Rightarrow>
                rbind (rmap (\<lambda>c. rbind (rmap_error (EffectPath (ev_seq e)) (canonical_effect_path (fc_path c)))
                              (\<lambda>p. Inr (effect_of e c p))) changes) (\<lambda>es.
                Inr (st\<lparr>au_effects := au_effects st @ es,
                        au_report := (au_report st)\<lparr>re_effect_complete := True,
                          re_net_changes_known := (changes \<noteq> [] \<and> re_net_changes_known (au_report st))\<rparr>\<rparr>))))"

definition audit_step ::
    "unicode_lower \<Rightarrow> string \<Rightarrow> audit_state \<Rightarrow> event \<Rightarrow> (audit_error, audit_state) result" where
  "audit_step ul target st e =
     (if ev_trace_id e = [] then Inl (EmptyTrace (ev_seq e))
      else if au_trace st \<noteq> [] \<and> ev_trace_id e \<noteq> au_trace st then Inl (MixedTraces (au_trace st) (ev_trace_id e))
      else (let st = st\<lparr>au_trace := ev_trace_id e\<rparr> in
            if ev_kind e = kind_subagent_spawn then audit_spawn e st
            else if ev_kind e = kind_subagent_tool_call then
              (case decode_subagent_tool_call (ev_payload e) of
                 None \<Rightarrow> Inl (BadPayload (ev_seq e))
               | Some p \<Rightarrow>
                   audit_call ul target e (ev_span_id e = [] \<or> st_call_id p = []) (st_call_id p) (st_name p) (st_args p) st)
            else if ev_kind e = kind_tool_call then
              (case unmarshal_tool_call (ev_payload e) of
                 None \<Rightarrow> Inl (BadPayload (ev_seq e))
               | Some p \<Rightarrow>
                   audit_call ul target e (ev_span_id e = []) (''seq-'' @ show_int (ev_seq e)) (tc_name p) (tc_args p) st)
            else if ev_kind e = kind_collector_fs_changed then audit_effects e st
            else Inr st))"

definition audit_start :: audit_state where
  "audit_start =
     \<lparr> au_trace = [], au_intents = [], au_effects = [],
       au_report = \<lparr> re_rows = [], re_effect_complete = False, re_net_changes_known = True,
                     re_control_mode = Map.empty \<rparr> \<rparr>"

definition decode_events ::
    "unicode_lower \<Rightarrow> event list \<Rightarrow> string \<Rightarrow> (audit_error, intent list \<times> effect list \<times> report) result" where
  "decode_events ul events target =
     rbind (rfold (audit_step ul target) audit_start events) (\<lambda>st.
       if \<not> re_effect_complete (au_report st) then Inl IncompleteObservation
       else rbind (match (au_intents st) (au_effects st) (re_net_changes_known (au_report st))) (\<lambda>rows.
         Inr (au_intents st, au_effects st, (au_report st)\<lparr>re_rows := rows\<rparr>)))"

section \<open>Lemmas: canonical paths\<close>

lemma set_join_with: "set (join_with sep xs) \<subseteq> \<Union> (set ` set xs) \<union> set sep"
  by (induction sep xs rule: join_with.induct) auto

lemma set_split_on: "x \<in> set (split_on c s) \<Longrightarrow> set x \<subseteq> set s"
proof (induction s arbitrary: x)
  case (Cons y ys)
  then show ?case by (cases "split_on c ys") (fastforce split: if_splits)+
qed simp

lemma set_foldl_clean_step: "set (foldl (clean_step r) st es) \<subseteq> set st \<union> set es"
proof (induction es arbitrary: st)
  case (Cons e es)
  have "set (clean_step r st e) \<subseteq> insert e (set st)"
    by (cases st) (auto simp: clean_step_def)
  with Cons [of "clean_step r st e"] show ?case by auto
qed simp

lemma set_path_elems: "e \<in> set (path_elems p) \<Longrightarrow> set e \<subseteq> set p"
  using set_foldl_clean_step [of "is_abs p" "[]" "split_on slash p"] set_split_on
  by (fastforce simp: path_elems_def)

lemma set_path_clean: "set (path_clean p) \<subseteq> set p \<union> {slash, CHR ''.''}"
proof -
  have "\<Union> (set ` set (path_elems p)) \<subseteq> set p" using set_path_elems [of _ p] by blast
  then have "set (join_with [slash] (path_elems p)) \<subseteq> set p \<union> {slash}"
    using set_join_with [of "[slash]" "path_elems p"] by (simp, blast)
  then show ?thesis by (auto simp: path_clean_def Let_def)
qed

text \<open>The elements of a relative path are some parent steps followed by proper elements.\<close>

lemma foldl_clean_step_shape:
  "(\<exists>k qs. st = qs @ replicate k ''..'' \<and> (\<forall>q\<in>set qs. proper_elem q)) \<Longrightarrow> \<forall>e\<in>set es. slash \<notin> set e \<Longrightarrow>
   \<exists>k qs. foldl (clean_step False) st es = qs @ replicate k ''..'' \<and> (\<forall>q\<in>set qs. proper_elem q)"
proof (induction es arbitrary: st)
  case (Cons e es)
  then obtain k qs where st: "st = qs @ replicate k ''..''" "\<forall>q\<in>set qs. proper_elem q" by blast
  have dd: "\<not> proper_elem ''..''" by (simp add: proper_elem_def)
  have "\<exists>k qs. clean_step False st e = qs @ replicate k ''..'' \<and> (\<forall>q\<in>set qs. proper_elem q)"
  proof -
    consider (skip) "e = [] \<or> e = ''.''" | (up) "e = ''..''" "qs = []"
      | (pop) q qs' where "e = ''..''" "qs = q # qs'" | (push) "proper_elem e"
      using Cons.prems(2) by (cases qs) (auto simp: proper_elem_def)
    then show ?thesis
    proof cases
      case skip
      with st show ?thesis by (auto simp: clean_step_def)
    next
      case up
      with st have "clean_step False st e = [] @ replicate (Suc k) ''..''"
        by (cases k) (auto simp: clean_step_def)
      then show ?thesis by (metis empty_iff empty_set)
    next
      case pop
      with st dd have "clean_step False st e = qs' @ replicate k ''..''"
        by (auto simp: clean_step_def)
      with st pop show ?thesis by auto
    next
      case push
      with st have "clean_step False st e = (e # qs) @ replicate k ''..''"
        by (simp add: clean_step_proper)
      with st push show ?thesis by (metis set_ConsD)
    qed
  qed
  with Cons show ?case by simp
qed simp

lemma path_elems_rel_shape:
  "\<not> is_abs p \<Longrightarrow> \<exists>k qs. path_elems p = replicate k ''..'' @ qs \<and> (\<forall>q\<in>set qs. proper_elem q)"
  using foldl_clean_step_shape [of "[]" "split_on slash p"]
  by (fastforce simp: path_elems_def split_on_no_sep)

definition relative_inside :: "string \<Rightarrow> bool" where
  "relative_inside p \<longleftrightarrow> (\<forall>e\<in>set (split_on slash p). proper_elem e)"

lemma join_up: "join_with [slash] (''..'' # es) = ''..'' \<or> prefix ''../'' (join_with [slash] (''..'' # es))"
  by (cases es) (simp_all add: slash_def)

lemma clean_relative_inside:
  assumes "\<not> is_abs p" "path_clean p \<noteq> ''.''" "path_clean p \<noteq> ''..''" "\<not> prefix ''../'' (path_clean p)"
  shows "relative_inside (path_clean p)"
proof -
  obtain k qs where e: "path_elems p = replicate k ''..'' @ qs" "\<forall>q\<in>set qs. proper_elem q"
    using path_elems_rel_shape [OF assms(1)] by blast
  have c: "path_clean p = join_with [slash] (path_elems p)" "path_elems p \<noteq> []"
    using assms(1,2) by (auto simp: path_clean_def Let_def split: if_splits)
  with assms(3,4) e(1) have "k = 0" using join_up by (cases k) auto
  with e have proper: "\<forall>q\<in>set (path_elems p). proper_elem q" by simp
  then have "split_on slash (path_clean p) = path_elems p"
    unfolding c(1) using c(2) by (intro split_on_join) (auto simp: proper_elem_def)
  with proper show ?thesis by (simp add: relative_inside_def)
qed

lemma clean_below_inside:
  assumes "is_abs p" "path_clean p = m @ slash # r" "m \<noteq> []"
  shows "relative_inside r"
proof -
  let ?es = "path_elems p"
  from assms(1,2) have j: "slash # join_with [slash] ?es = m @ slash # r" by (simp add: path_clean_abs)
  with assms(3) obtain m' where m: "m = slash # m'" "join_with [slash] ?es = m' @ slash # r"
    by (cases m) auto
  then have "?es \<noteq> []" by (cases ?es) auto
  then have "split_on slash (join_with [slash] ?es) = ?es"
    using path_elems_proper [OF assms(1)] by (intro split_on_join) (auto simp: proper_elem_def)
  then have "?es = split_on slash m' @ split_on slash r" unfolding m(2) split_on_append by simp
  then show ?thesis using path_elems_proper [OF assms(1)] by (simp add: relative_inside_def)
qed

lemma is_abs_join: "es \<noteq> [] \<Longrightarrow> \<forall>e\<in>set es. e \<noteq> [] \<and> slash \<notin> set e \<Longrightarrow> \<not> is_abs (join_with [slash] es)"
  by (cases "([slash], es)" rule: join_with.cases; cases "hd es") auto

lemma is_abs_path_clean_iff: "is_abs (path_clean p) \<longleftrightarrow> is_abs p"
proof (cases "is_abs p")
  case False
  then obtain k qs where e: "path_elems p = replicate k ''..'' @ qs" "\<forall>q\<in>set qs. proper_elem q"
    using path_elems_rel_shape by blast
  have "slash \<notin> set ''..''" by (simp add: slash_def)
  with e(2) have ok: "\<forall>e\<in>set (replicate k ''..'' @ qs). e \<noteq> [] \<and> slash \<notin> set e"
    by (simp add: proper_elem_def ball_Un)
  show ?thesis
  proof (cases "path_elems p = []")
    case True
    with False show ?thesis by (simp add: path_clean_def slash_def)
  next
    case ne: False
    with is_abs_join [OF _ ok] e(1) have "\<not> is_abs (join_with [slash] (path_elems p))" by simp
    with False show ?thesis by (simp add: path_clean_def Let_def slash_def)
  qed
qed simp

lemma canonical_path_Inr:
  assumes "canonical_path raw target = Inr p"
  shows "relative_inside p" "CHR 0x00 \<notin> set p"
proof -
  let ?m = "path_clean target" and ?c = "path_clean raw"
  from assms have raw: "CHR 0x00 \<notin> set raw" and c: "?c \<noteq> ''.''"
    and p: "p \<noteq> []" "p \<noteq> ''..''" "\<not> prefix ''../'' p"
    and rel: "p = (if is_abs ?c then trim_prefix (trim_prefix ?c ?m) [slash] else ?c)"
    and below: "is_abs ?c \<longrightarrow> ?c = ?m \<or> prefix (?m @ [slash]) ?c" and m: "is_abs ?m"
    by (auto simp: canonical_path_def Let_def split: if_splits)
  have nul: "CHR 0x00 \<notin> set ?c" using raw set_path_clean [of raw] by (auto simp: slash_def)
  have "relative_inside p \<and> CHR 0x00 \<notin> set p"
  proof (cases "is_abs raw")
    case False
    with rel have "p = ?c" by (simp add: is_abs_path_clean_iff)
    with False c p nul show ?thesis by (simp add: clean_relative_inside)
  next
    case True
    have "?c \<noteq> ?m" using True rel p(1) by (auto simp: trim_prefix_def split: if_splits)
    with True below obtain r where r: "?c = ?m @ slash # r" by (auto simp: prefix_def)
    with m have "is_abs ?c" by (cases ?m) auto
    with rel have "p = trim_prefix (trim_prefix ?c ?m) [slash]" by simp
    with r have "p = r" by (simp add: trim_prefix_def)
    moreover have "?m \<noteq> []" using m by auto
    ultimately show ?thesis using True r nul clean_below_inside by auto
  qed
  then show "relative_inside p" "CHR 0x00 \<notin> set p" by simp_all
qed

section \<open>Lemmas: the matching\<close>

definition row_intent where
  "row_intent r = (rw_trace_id r, rw_span_id r, rw_path r, rw_intent_seq r, rw_call_id r, rw_name r, rw_reported_type r)"

definition row_effect where
  "row_effect r = (rw_span_id r, rw_path r, rw_effect_seq r, rw_observed_type r)"

definition of_intent where
  "of_intent i = (in_trace_id i, in_span_id i, in_path i, in_seq i, in_call_id i, in_name i, in_change_type i)"

definition of_effect where
  "of_effect e = (ef_span_id e, ef_path e, ef_seq e, ef_change_type e)"

definition reporting :: "row \<Rightarrow> bool" where
  "reporting r \<longleftrightarrow> rw_classification r \<noteq> ObservedUnreported"

definition observing :: "row \<Rightarrow> bool" where
  "observing r \<longleftrightarrow> rw_classification r \<noteq> ReportedUnobserved"

lemmas row_defs = row_intent_def row_effect_def of_intent_def of_effect_def reporting_def observing_def
  matched_row_def reported_row_def observed_row_def

lemma match_group_intents: "map row_intent (filter reporting (match_group is es)) = map of_intent is"
  by (induction "is" es rule: match_group.induct) (auto simp: row_defs)

lemma match_group_effects:
  "\<forall>i\<in>set is. \<forall>e\<in>set es. in_span_id i = ef_span_id e \<and> in_path i = ef_path e \<Longrightarrow>
   map row_effect (filter observing (match_group is es)) = map of_effect es"
  by (induction "is" es rule: match_group.induct) (auto simp: row_defs)

lemma match_group_matched:
  "r \<in> set (match_group is es) \<Longrightarrow> rw_classification r = Matched \<Longrightarrow>
   \<exists>i\<in>set is. \<exists>e\<in>set es. r = matched_row i e \<and> compatible (in_change_type i) (ef_change_type e)"
  by (induction "is" es rule: match_group.induct)
    (auto simp: reported_row_def observed_row_def split: if_splits)

lemma match_group_unmatched:
  "r \<in> set (match_group is es) \<Longrightarrow> rw_classification r \<noteq> Matched \<Longrightarrow>
   (\<exists>i\<in>set is. r = reported_row i) \<or> (\<exists>e\<in>set es. \<exists>why. r = observed_row why e)"
  by (induction "is" es rule: match_group.induct)
    (auto simp: matched_row_def split: if_splits)

lemma groups_partition:
  "distinct ks \<Longrightarrow>
   mset (concat (map (\<lambda>k. sort_key g (filter (\<lambda>x. f x = k) xs)) ks)) = filter_mset (\<lambda>x. f x \<in> set ks) (mset xs)"
proof (induction ks)
  case (Cons k ks)
  have "filter_mset (\<lambda>x. f x = k \<or> f x \<in> set ks) (mset xs) =
      filter_mset (\<lambda>x. f x = k) (mset xs) + filter_mset (\<lambda>x. f x \<in> set ks) (mset xs)"
    using Cons.prems by (induction xs) auto
  with Cons show ?case by simp
qed simp

lemma match_key_inj:
  assumes "CHR 0x00 \<notin> set p" "CHR 0x00 \<notin> set q" "match_key s p = match_key t q"
  shows "s = t \<and> p = q"
proof -
  have "Some (s, p) = split_last (CHR 0x00) (match_key s p)"
    using split_last_append [OF assms(1)] by (simp add: match_key_def)
  also have "\<dots> = Some (t, q)"
    using split_last_append [OF assms(2)] unfolding assms(3) by (simp add: match_key_def)
  finally show ?thesis by simp
qed

definition clean_keys :: "intent list \<Rightarrow> effect list \<Rightarrow> bool" where
  "clean_keys is es \<longleftrightarrow> (\<forall>i\<in>set is. CHR 0x00 \<notin> set (in_path i)) \<and> (\<forall>e\<in>set es. CHR 0x00 \<notin> set (ef_path e))"

lemma same_key:
  "clean_keys is es \<Longrightarrow> i \<in> set is \<Longrightarrow> e \<in> set es \<Longrightarrow> intent_key i = effect_key e \<Longrightarrow>
   in_span_id i = ef_span_id e \<and> in_path i = ef_path e"
  using match_key_inj [of "in_path i" "ef_path e" "in_span_id i" "ef_span_id e"]
  by (simp add: clean_keys_def intent_key_def effect_key_def)

lemma match_Inr:
  "match is es known = Inr rows \<Longrightarrow>
   rows = concat (map (\<lambda>k. match_group (sort_key in_seq (filter (\<lambda>i. intent_key i = k) is))
                                   (sort_key ef_seq (filter (\<lambda>e. effect_key e = k) es))) (match_keys is es))"
  by (auto simp: match_def split: if_splits option.splits)

lemma match_keys_props [simp]:
  "distinct (match_keys is es)" "set (match_keys is es) = intent_key ` set is \<union> effect_key ` set es"
  by (simp_all add: match_keys_def)

lemma mset_map_filter_concat:
  "(\<And>k. k \<in> set ks \<Longrightarrow> map f (filter P (h k)) = map g (u k)) \<Longrightarrow>
   image_mset f (filter_mset P (mset (concat (map h ks)))) = image_mset g (mset (concat (map u ks)))"
proof (induction ks)
  case (Cons k ks)
  have "image_mset f (filter_mset P (mset (h k))) = image_mset g (mset (u k))"
    using Cons.prems [of k] by (metis list.set_intros(1) mset_filter mset_map)
  with Cons show ?case by simp
qed simp

lemma filter_all_keys: "(\<And>x. x \<in> set xs \<Longrightarrow> P x) \<Longrightarrow> filter_mset P (mset xs) = mset xs"
  by (simp add: filter_mset_eq_conv)

lemma match_intents:
  assumes "match is es known = Inr rows"
  shows "image_mset row_intent (filter_mset reporting (mset rows)) = image_mset of_intent (mset is)"
proof -
  let ?u = "\<lambda>k. sort_key in_seq (filter (\<lambda>i. intent_key i = k) is)"
  have "filter_mset (\<lambda>i. intent_key i \<in> set (match_keys is es)) (mset is) = mset is"
    by (rule filter_all_keys) simp
  then have all: "mset (concat (map ?u (match_keys is es))) = mset is"
    by (subst groups_partition) simp_all
  show ?thesis
    unfolding match_Inr [OF assms] all [symmetric]
    by (rule mset_map_filter_concat) (rule match_group_intents)
qed

lemma match_effects:
  assumes "match is es known = Inr rows" "clean_keys is es"
  shows "image_mset row_effect (filter_mset observing (mset rows)) = image_mset of_effect (mset es)"
proof -
  let ?u = "\<lambda>k. sort_key ef_seq (filter (\<lambda>e. effect_key e = k) es)"
  have "filter_mset (\<lambda>e. effect_key e \<in> set (match_keys is es)) (mset es) = mset es"
    by (rule filter_all_keys) simp
  then have all: "mset (concat (map ?u (match_keys is es))) = mset es"
    by (subst groups_partition) simp_all
  show ?thesis
    unfolding match_Inr [OF assms(1)] all [symmetric]
    by (rule mset_map_filter_concat, rule match_group_effects) (simp add: same_key [OF assms(2)])
qed

lemma match_rows:
  assumes "match is es known = Inr rows" "clean_keys is es" "r \<in> set rows" "rw_classification r = Matched"
  shows "\<exists>i\<in>set is. \<exists>e\<in>set es. r = matched_row i e \<and> compatible (in_change_type i) (ef_change_type e) \<and>
           in_span_id i = ef_span_id e \<and> in_path i = ef_path e"
proof -
  obtain k where "r \<in> set (match_group (sort_key in_seq (filter (\<lambda>i. intent_key i = k) is))
      (sort_key ef_seq (filter (\<lambda>e. effect_key e = k) es)))"
    using assms(3) unfolding match_Inr [OF assms(1)] by auto
  from match_group_matched [OF this assms(4)] obtain i e where
    ie: "i \<in> set is" "e \<in> set es" "intent_key i = effect_key e" "r = matched_row i e"
      "compatible (in_change_type i) (ef_change_type e)" by auto
  with same_key [OF assms(2)] show ?thesis by blast
qed

section \<open>The whole audit\<close>

definition inside_state :: "audit_state \<Rightarrow> bool" where
  "inside_state st \<longleftrightarrow>
     (\<forall>i\<in>set (au_intents st). relative_inside (in_path i) \<and> CHR 0x00 \<notin> set (in_path i)) \<and>
     (\<forall>e\<in>set (au_effects st). relative_inside (ef_path e) \<and> CHR 0x00 \<notin> set (ef_path e))"

lemma audit_call_inside:
  "audit_call ul target e bad c n args st = Inr st' \<Longrightarrow> inside_state st \<Longrightarrow> inside_state st'"
  by (auto simp: audit_call_def inside_state_def intent_of_def result_simps canonical_path_Inr
      split: option.splits if_splits)

lemma audit_effects_inside:
  assumes "audit_effects e st = Inr st'" "inside_state st"
  shows "inside_state st'"
proof -
  obtain cs es where es: "rmap (\<lambda>c. rbind (rmap_error (EffectPath (ev_seq e)) (canonical_effect_path (fc_path c)))
        (\<lambda>p. Inr (effect_of e c p))) cs = Inr es"
    and st': "au_effects st' = au_effects st @ es" "au_intents st' = au_intents st"
    using assms(1) by (auto simp: audit_effects_def result_simps split: option.splits if_splits)
  have "relative_inside (ef_path x) \<and> CHR 0x00 \<notin> set (ef_path x)" if "x \<in> set es" for x
    using rmap_Inr_set [OF es that]
    by (auto simp: result_simps canonical_effect_path_def effect_of_def canonical_path_Inr split: if_splits)
  with assms(2) st' show ?thesis by (auto simp: inside_state_def)
qed

lemma audit_spawn_inside: "audit_spawn e st = Inr st' \<Longrightarrow> inside_state st \<Longrightarrow> inside_state st'"
  by (auto simp: audit_spawn_def inside_state_def Let_def split: option.splits if_splits)

lemma audit_step_inside:
  assumes "audit_step ul target st e = Inr st'" "inside_state st"
  shows "inside_state st'"
proof -
  have "inside_state (st\<lparr>au_trace := ev_trace_id e\<rparr>)" using assms(2) by (simp add: inside_state_def)
  with assms(1) show ?thesis
    unfolding audit_step_def Let_def
    by (auto split: if_splits option.splits
        elim: audit_call_inside audit_effects_inside audit_spawn_inside)
qed

lemma decode_events_Inr:
  assumes "decode_events ul events target = Inr (is, es, rep)"
  obtains "match is es (re_net_changes_known rep) = Inr (re_rows rep)"
    "\<forall>i\<in>set is. relative_inside (in_path i)" "\<forall>e\<in>set es. relative_inside (ef_path e)" "clean_keys is es"
proof -
  obtain st where st: "rfold (audit_step ul target) audit_start events = Inr st"
    "is = au_intents st" "es = au_effects st"
    "match is es (re_net_changes_known rep) = Inr (re_rows rep)"
    using assms by (auto simp: decode_events_def result_simps split: if_splits)
  have "inside_state audit_start" by (simp add: inside_state_def audit_start_def)
  with st(1) have "inside_state st" by (rule rfold_invariant) (rule audit_step_inside)
  with st that show thesis by (auto simp: inside_state_def clean_keys_def)
qed

definition sample_call_payload :: string where
  "sample_call_payload = print_object
     [(''args'', print_object [(''path'', quote_json True ''/workspace/x/../a'')]), (''name'', quote_json True ''write'')]"

definition sample_change_payload :: string where
  "sample_change_payload = print_object
     [(''changes'', ''['' @ join_with '','' [print_object
        [(''change_type'', quote_json True ''added''), (''hash'', quote_json True ''h''),
         (''path'', quote_json True ''a'')]] @ '']'')]"

definition sample_audit_log :: "event list" where
  "sample_audit_log =
     [\<lparr> ev_seq = 1, ev_ts = 5, ev_trace_id = ''t'', ev_span_id = ''s'', ev_parent_span_id = None,
        ev_kind = kind_tool_call, ev_actor = ''agent'', ev_payload = sample_call_payload, ev_raw = None,
        ev_usage_in = None, ev_usage_out = None \<rparr>,
      \<lparr> ev_seq = 2, ev_ts = 6, ev_trace_id = ''t'', ev_span_id = ''s'', ev_parent_span_id = None,
        ev_kind = kind_collector_fs_changed, ev_actor = ''collector'', ev_payload = sample_change_payload,
        ev_raw = None, ev_usage_in = None, ev_usage_out = None \<rparr>]"

lemma nesting_2: "Suc (Suc (Suc 0)) \<le> max_nesting" "Suc (Suc 0) \<le> max_nesting" "Suc 0 \<le> max_nesting"
  by (simp_all add: max_nesting_def)

lemma sample_args:
  "struct_members (print_object [(''path'', quote_json True p)]) = Some [(''path'', quote_json True p)]"
  "\<exists>v. parses (Suc 0) (print_object [(''path'', quote_json True p)]) v"
  by (rule struct_members_fields [of _ 0], simp add: is_ascii_def parses_string_exists, rule nesting_2)+

lemma sample_call_decoded:
  "unmarshal_tool_call sample_call_payload =
     Some \<lparr> tc_name = ''write'', tc_args = print_object [(''path'', quote_json True ''/workspace/x/../a'')] \<rparr>"
proof -
  let ?ms = "[(''args'', print_object [(''path'', quote_json True ''/workspace/x/../a'')]), (''name'', quote_json True ''write'')]"
  have "struct_members (print_object ?ms) = Some ?ms"
    using sample_args(2) [of "''/workspace/x/../a''"]
    by (intro struct_members_fields(1) [of _ "Suc 0"] nesting_2) (simp add: is_ascii_def)
  then show ?thesis
    unfolding unmarshal_tool_call_def sample_call_payload_def
    by (simp add: str_field_def field_raws_known raw_field_def dec_string_quote utf8_sanitize_ascii_id is_ascii_def)
qed

lemma sample_change_decoded:
  "decode_fs_changed sample_change_payload =
     Some [\<lparr> fc_change_type = ''added'', fc_hash = ''h'', fc_path = ''a'' \<rparr>]"
proof -
  let ?ms = "[(''change_type'', quote_json True ''added''), (''hash'', quote_json True ''h''), (''path'', quote_json True ''a'')]"
  let ?arr = "''['' @ join_with '','' [print_object ?ms] @ '']''"
  have ms: "struct_members (print_object ?ms) = Some ?ms" "\<exists>v. parses (Suc 0) (print_object ?ms) v"
    by (rule struct_members_fields [of _ 0], simp add: is_ascii_def parses_string_exists, rule nesting_2)+
  then obtain v where v: "list_all2 (parses (Suc 0)) [print_object ?ms] [v]" by auto
  have arr: "array_elements ?arr = Some [print_object ?ms]"
    by (rule array_elements_print [OF v]) (simp add: max_nesting_def)
  have "struct_members (print_object [(''changes'', ?arr)]) = Some [(''changes'', ?arr)]"
    using parses_array [OF v]
    by (intro struct_members_fields(1) [of _ "Suc (Suc 0)"] ballI conjI nesting_2) (auto simp: is_ascii_def)
  moreover have "print_object ?ms \<noteq> ''null''" "?arr \<noteq> ''null''" by (simp_all add: print_object_def)
  moreover have "decode_fs_change (print_object ?ms) = Some \<lparr> fc_change_type = ''added'', fc_hash = ''h'', fc_path = ''a'' \<rparr>"
    by (simp add: decode_fs_change_def ms str_field_def field_raws_known dec_string_quote utf8_sanitize_ascii_id is_ascii_def)
  ultimately show ?thesis
    unfolding decode_fs_changed_def sample_change_payload_def
    by (simp add: field_raws_known dec_list_def arr del: join_with.simps append_Cons)
qed

lemma sample_paths:
  "canonical_path ''/workspace/x/../a'' ''/workspace'' = Inr ''a''"
  "canonical_effect_path ''a'' = Inr ''a''"
  by (simp_all add: canonical_path_def canonical_effect_path_def is_ascii_utf8_valid is_ascii_def path_clean_def
      path_elems_def clean_step_def slash_def backslash_def trim_prefix_def)

lemma sample_audit:
  "\<exists>is es rep. decode_events ul sample_audit_log ''/workspace'' = Inr (is, es, rep) \<and>
     map in_path is = [''a''] \<and> map rw_classification (re_rows rep) = [Matched]"
proof -
  have "path_argument (print_object [(''path'', quote_json True ''/workspace/x/../a'')]) = Some ''/workspace/x/../a''"
    by (simp add: path_argument_def sample_args(1) map_filter_simps json_string_value_def dec_string_quote
        utf8_sanitize_ascii_id is_ascii_def)
  then show ?thesis
    by (simp add: decode_events_def sample_audit_log_def audit_step_def audit_start_def kind_defs sample_call_decoded
        sample_change_decoded audit_call_def audit_effects_def sample_paths filesystem_tool_def change_type_for_tool_def
        to_lower_def is_ascii_def lower_byte_def intent_of_def effect_of_def match_def match_keys_def uniq_def
        intent_key_def effect_key_def match_key_def compatible_def change_deleted_def change_added_def
        change_modified_def matched_row_def rmap_error_def)
qed

text \<open>
  C28. A successful audit accounts for every reported intent and for every observed effect exactly
  once: the rows that report are, with their multiplicities, the intents of the log, and the rows
  that observe are its effects.
\<close>

theorem audit_accounts_once:
  assumes "decode_events ul events target = Inr (is, es, rep)"
  shows "image_mset row_intent (filter_mset reporting (mset (re_rows rep))) = image_mset of_intent (mset is) \<and>
    image_mset row_effect (filter_mset observing (mset (re_rows rep))) = image_mset of_effect (mset es)"
  using decode_events_Inr [OF assms] match_intents match_effects by metis

theorem audit_accounts_once_witness:
  "\<exists>is es rep. decode_events id sample_audit_log ''/workspace'' = Inr (is, es, rep) \<and>
     image_mset row_intent (filter_mset reporting (mset (re_rows rep))) = image_mset of_intent (mset is) \<and> is \<noteq> []"
proof -
  obtain "is" es rep where a: "decode_events id sample_audit_log ''/workspace'' = Inr (is, es, rep)" "map in_path is = [''a'']"
    using sample_audit [of id] by (elim exE conjE)
  then have "is \<noteq> []" by (cases "is") simp_all
  with a(1) audit_accounts_once [OF a(1)] show ?thesis by blast
qed

text \<open>
  C29. Every matched row of a successful audit joins an intent and an effect of the same span and the
  same path whose kinds of change are compatible, and every path the audit compares is relative
  and stays inside the workspace: each of its elements is a name, never empty, a dot or two dots.
\<close>

theorem audit_matches_sound:
  assumes "decode_events ul events target = Inr (is, es, rep)"
  shows "(\<forall>r\<in>set (re_rows rep). rw_classification r = Matched \<longrightarrow>
      (\<exists>i\<in>set is. \<exists>e\<in>set es. r = matched_row i e \<and> in_span_id i = ef_span_id e \<and> in_path i = ef_path e \<and>
         compatible (in_change_type i) (ef_change_type e))) \<and>
    (\<forall>i\<in>set is. relative_inside (in_path i)) \<and> (\<forall>e\<in>set es. relative_inside (ef_path e))"
proof (rule decode_events_Inr [OF assms], intro conjI ballI impI)
  fix r
  assume "match is es (re_net_changes_known rep) = Inr (re_rows rep)" "clean_keys is es"
    "r \<in> set (re_rows rep)" "rw_classification r = Matched"
  from match_rows [OF this] show "\<exists>i\<in>set is. \<exists>e\<in>set es. r = matched_row i e \<and> in_span_id i = ef_span_id e \<and>
      in_path i = ef_path e \<and> compatible (in_change_type i) (ef_change_type e)" by blast
qed blast+

theorem audit_matches_sound_witness:
  "\<exists>is es rep r. decode_events id sample_audit_log ''/workspace'' = Inr (is, es, rep) \<and> r \<in> set (re_rows rep) \<and>
     rw_classification r = Matched \<and> (\<exists>i\<in>set is. relative_inside (in_path i) \<and> rw_path r = in_path i)"
proof -
  obtain "is" es rep where a: "decode_events id sample_audit_log ''/workspace'' = Inr (is, es, rep)"
    "map rw_classification (re_rows rep) = [Matched]"
    using sample_audit [of id] by (elim exE conjE)
  then obtain r where r: "r \<in> set (re_rows rep)" "rw_classification r = Matched"
    by (cases "re_rows rep") simp_all
  with audit_matches_sound [OF a(1)] obtain i e where i: "i \<in> set is" "relative_inside (in_path i)" "r = matched_row i e"
    by meson
  then have "rw_path r = in_path i" by (simp add: matched_row_def)
  with a(1) r i(1,2) show ?thesis by blast
qed

end
