(* ===== verification/Audit_Report.thy ===== *)
theory Audit_Report
  imports Intent_Audit "HOL-Library.Product_Lexorder"
begin

text \<open>
  The audit's two read-only projections: the retry-loop warning over a session's log
  (\<open>core/audit/retryloop.go\<close>) and the rendering of a report (\<open>core/audit/report.go\<close>). Times are
  \<open>int64\<close> words, so that the gaps between them wrap as the code's do. \<open>strconv.Quote\<close> is the
  argument \<open>quote\<close>.
\<close>

section \<open>Retry loops\<close>

definition kind_subagent_ready :: string where "kind_subagent_ready = ''subagent/ready''"
definition kind_subagent_message :: string where "kind_subagent_message = ''subagent/message''"
definition kind_collector_egress :: string where "kind_collector_egress = ''collector/egress''"

record retry_suspicion =
  sus_domain :: string
  sus_methods :: "string list"
  sus_denies :: nat
  sus_first_gap :: i64
  sus_last_gap :: i64

definition default_retry_threshold :: int where
  "default_retry_threshold = 4"

text \<open>The denials after ready, in the order of the log; \<open>None\<close> when the session is ruled out.\<close>

fun collect_denies ::
    "bool \<Rightarrow> egress_payload list \<Rightarrow> event list \<Rightarrow> (audit_error, (bool \<times> egress_payload list) option) result" where
  "collect_denies ready acc [] = Inr (Some (ready, acc))"
| "collect_denies ready acc (e # es) =
     (if ev_kind e = kind_subagent_ready then collect_denies True acc es
      else if ev_kind e = kind_subagent_message \<or> ev_kind e = kind_subagent_tool_call then
        (if ready then Inr None else collect_denies ready acc es)
      else if ev_kind e = kind_collector_egress \<and> ready then
        (case decode_egress (ev_payload e) of
           None \<Rightarrow> Inl (BadPayload (ev_seq e))
         | Some p \<Rightarrow>
             if eg_decision p \<noteq> ''deny'' \<or> eg_domain p = [] then collect_denies ready acc es
             else collect_denies ready (acc @ [p]) es)
      else collect_denies ready acc es)"

fun gaps :: "i64 list \<Rightarrow> i64 list" where
  "gaps (a # b # ts) = (b - a) # gaps (b # ts)"
| "gaps ts = []"

fun growing :: "i64 \<Rightarrow> i64 list \<Rightarrow> bool" where
  "growing prev [] = True"
| "growing prev (g # gs) = (if g <s 0 \<or> g <s prev then False else growing g gs)"

definition backoff_gaps :: "i64 list \<Rightarrow> bool" where
  "backoff_gaps at_ms =
     (if \<not> growing (- 1) (gaps at_ms) then False
      else (let n = length at_ms in
            at_ms ! 1 - at_ms ! 0 <s at_ms ! (n - 1) - at_ms ! (n - 2)))"

definition suspicion_of :: "int \<Rightarrow> egress_payload list \<Rightarrow> string \<Rightarrow> retry_suspicion option" where
  "suspicion_of k denies domain =
     (let g = filter (\<lambda>p. eg_domain p = domain) denies;
          at_ms = map (\<lambda>p. word_of_int (eg_at_ms p)) g;
          n = length at_ms in
      if int n < k \<or> \<not> backoff_gaps at_ms then None
      else Some \<lparr> sus_domain = domain, sus_methods = sort (uniq (map eg_method g)), sus_denies = n,
                  sus_first_gap = at_ms ! 1 - at_ms ! 0, sus_last_gap = at_ms ! (n - 1) - at_ms ! (n - 2) \<rparr>)"

definition detect_retry_loops :: "event list \<Rightarrow> int \<Rightarrow> (audit_error, retry_suspicion list) result" where
  "detect_retry_loops events k =
     (let k = (if k \<le> 1 then default_retry_threshold else k) in
      rbind (collect_denies False [] (sort_key ev_seq events)) (\<lambda>r.
        Inr (case r of
               None \<Rightarrow> []
             | Some (ready, denies) \<Rightarrow>
                 if \<not> ready then []
                 else List.map_filter (suspicion_of k denies) (sort (uniq (map eg_domain denies))))))"

section \<open>Rendering\<close>

record summary =
  su_total :: nat
  su_matched :: nat
  su_reported_unobserved :: nat
  su_observed_unreported :: nat

fun summary_step :: "summary \<Rightarrow> row \<Rightarrow> summary" where
  "summary_step s r =
     (let s = s\<lparr>su_total := su_total s + 1\<rparr> in
      case rw_classification r of
        Matched \<Rightarrow> s\<lparr>su_matched := su_matched s + 1\<rparr>
      | ReportedUnobserved \<Rightarrow> s\<lparr>su_reported_unobserved := su_reported_unobserved s + 1\<rparr>
      | ObservedUnreported \<Rightarrow> s\<lparr>su_observed_unreported := su_observed_unreported s + 1\<rparr>)"

definition summary_of :: "report \<Rightarrow> summary" where
  "summary_of r =
     foldl summary_step \<lparr> su_total = 0, su_matched = 0, su_reported_unobserved = 0, su_observed_unreported = 0 \<rparr>
       (re_rows r)"

definition observation_complete :: "report \<Rightarrow> bool" where
  "observation_complete r \<longleftrightarrow> re_effect_complete r \<and> re_net_changes_known r"

record context_entry =
  cx_seq :: int
  cx_role :: string
  cx_span_id :: string
  cx_summary :: string

record render_options =
  ro_include_cost :: bool
  ro_usage_in :: int
  ro_usage_out :: int
  ro_usage_by_actor :: "(string \<times> int \<times> int) list"
  ro_at_seq_context :: "context_entry list option"

fun classification_name :: "classification \<Rightarrow> string" where
  "classification_name ReportedUnobserved = ''reported_unobserved''"
| "classification_name ObservedUnreported = ''observed_unreported''"
| "classification_name Matched = ''matched''"

text \<open>A control byte is a byte below a space or delete: the bytes of longer runes are all above.\<close>

definition safe_field :: "(string \<Rightarrow> string) \<Rightarrow> string \<Rightarrow> string" where
  "safe_field quote v =
     (if list_ex (\<lambda>c. (of_char c :: nat) < 32 \<or> (of_char c :: nat) = 127) v then quote v else v)"

text \<open>The nine fields that \<open>rowLess\<close> compares in turn.\<close>

definition row_order where
  "row_order r =
     (rw_path r, rw_span_id r, rw_parent_span_id r, rw_intent_seq r, rw_effect_seq r,
      classification_name (rw_classification r), rw_reported_type r, rw_observed_type r, rw_reason r)"

definition tab :: string where "tab = [CHR 0x09]"
definition newline :: string where "newline = [CHR 0x0A]"

definition row_line :: "(string \<Rightarrow> string) \<Rightarrow> row \<Rightarrow> string" where
  "row_line quote r =
     join_with tab
       [safe_field quote (classification_name (rw_classification r)), safe_field quote (rw_span_id r),
        safe_field quote (rw_parent_span_id r), safe_field quote (rw_path r),
        safe_field quote (rw_reported_type r), safe_field quote (rw_observed_type r),
        show_int (rw_intent_seq r), show_int (rw_effect_seq r), safe_field quote (rw_reason r)] @ newline"

definition table_header :: string where
  "table_header =
     ''effect_observation: complete'' @ newline @
     join_with tab [''classification'', ''span_id'', ''parent_span_id'', ''path'', ''reported_change'',
       ''observed_change'', ''intent_seq'', ''effect_seq'', ''reason''] @ newline"

definition count_line :: "string \<Rightarrow> int \<Rightarrow> string" where
  "count_line name n = name @ tab @ show_int n @ newline"

definition summary_lines :: "summary \<Rightarrow> string" where
  "summary_lines s =
     ''summary'' @ newline @ count_line ''total'' (int (su_total s)) @ count_line ''matched'' (int (su_matched s)) @
     count_line ''reported_unobserved'' (int (su_reported_unobserved s)) @
     count_line ''observed_unreported'' (int (su_observed_unreported s))"

definition cost_lines :: "(string \<Rightarrow> string) \<Rightarrow> render_options \<Rightarrow> string" where
  "cost_lines quote opts =
     (if \<not> ro_include_cost opts then []
      else count_line ''usage_in'' (ro_usage_in opts) @ count_line ''usage_out'' (ro_usage_out opts) @
           ''usage_by_actor'' @ newline @
           concat (map (\<lambda>(a, i, u). join_with tab [safe_field quote a, show_int i, show_int u] @ newline)
             (sort_key fst (ro_usage_by_actor opts))))"

definition context_lines :: "(string \<Rightarrow> string) \<Rightarrow> render_options \<Rightarrow> string" where
  "context_lines quote opts =
     (case ro_at_seq_context opts of
        None \<Rightarrow> []
      | Some es \<Rightarrow>
          ''parent_context'' @ newline @
          concat (map (\<lambda>c. join_with tab [show_int (cx_seq c), safe_field quote (cx_role c),
              safe_field quote (cx_span_id c), safe_field quote (cx_summary c)] @ newline)
            (sort_key (\<lambda>c. (cx_seq c, cx_role c)) es)))"

definition render_with_options ::
    "(string \<Rightarrow> string) \<Rightarrow> report \<Rightarrow> render_options \<Rightarrow> (audit_error, string) result" where
  "render_with_options quote r opts =
     (if \<not> observation_complete r then Inl IncompleteObservation
      else Inr (table_header @ concat (map (row_line quote) (sort_key row_order (re_rows r))) @
                summary_lines (summary_of r) @ cost_lines quote opts @ context_lines quote opts))"

section \<open>Lemmas\<close>

lemma sort_key_permuted:
  assumes "mset xs = mset ys" "distinct (map f xs)"
  shows "sort_key f xs = sort_key f ys"
proof (rule map_sorted_distinct_set_unique [of f])
  have d: "distinct (map f ys)" using assms by (metis mset_eq_imp_distinct_iff mset_map)
  have "set xs = set ys" using assms(1) by (rule mset_eq_setD)
  then show "inj_on f (set (sort_key f xs) \<union> set (sort_key f ys))" "set (sort_key f xs) = set (sort_key f ys)"
    using assms(2) by (simp_all add: distinct_map)
  show "distinct (map f (sort_key f xs))" "distinct (map f (sort_key f ys))"
    using assms(2) d by (simp_all add: distinct_map)
qed simp_all

lemma map_sort_key: "map f (sort_key f xs) = sort (map f xs)"
  by (rule properties_for_sort [symmetric]) simp_all

lemma foldl_permuted:
  assumes "\<And>s x y. f (f s x) y = f (f s y) x" "mset xs = mset ys"
  shows "foldl f s xs = foldl f s ys"
proof -
  have "fold (\<lambda>x s. f s x) xs s = fold (\<lambda>x s. f s x) ys s"
    by (rule fold_permuted_eq [where P = "\<lambda>_. True"]) (use assms in auto)
  then show ?thesis by (simp add: foldl_conv_fold)
qed

lemma summary_step_swap: "summary_step (summary_step s x) y = summary_step (summary_step s y) x"
  by (cases "rw_classification x"; cases "rw_classification y") simp_all

definition line_of_order where
  "line_of_order quote =
     (\<lambda>(p, span, parent, iseq, eseq, cls, rep, obs, reason).
        join_with tab [safe_field quote cls, safe_field quote span, safe_field quote parent, safe_field quote p,
          safe_field quote rep, safe_field quote obs, show_int iseq, show_int eseq, safe_field quote reason] @ newline)"

lemma row_line_order: "row_line quote r = line_of_order quote (row_order r)"
  by (simp add: row_line_def line_of_order_def row_order_def)

lemma rows_permuted:
  assumes "mset rows = mset rows'"
  shows "map (row_line quote) (sort_key row_order rows) = map (row_line quote) (sort_key row_order rows')"
proof -
  have "sort (map row_order rows) = sort (map row_order rows')"
    by (intro properties_for_sort) (simp_all add: assms)
  then have "map row_order (sort_key row_order rows) = map row_order (sort_key row_order rows')"
    by (simp add: map_sort_key)
  then have "map (line_of_order quote) (map row_order (sort_key row_order rows)) =
      map (line_of_order quote) (map row_order (sort_key row_order rows'))" by simp
  then show ?thesis by (simp add: row_line_order [abs_def] comp_def)
qed

section \<open>Properties\<close>



text \<open>
  C37. A report renders to the same bytes however its rows are ordered, and it renders at all exactly
  when the effects were observed completely and the net changes are known.
\<close>

theorem render_deterministic:
  assumes "mset (re_rows r) = mset (re_rows r')"
    "re_effect_complete r = re_effect_complete r'" "re_net_changes_known r = re_net_changes_known r'"
  shows "render_with_options quote r opts = render_with_options quote r' opts \<and>
    ((\<exists>out. render_with_options quote r opts = Inr out) \<longleftrightarrow> re_effect_complete r \<and> re_net_changes_known r)"
proof -
  have "summary_of r = summary_of r'"
    unfolding summary_of_def by (rule foldl_permuted, rule summary_step_swap, rule assms(1))
  moreover have "observation_complete r = observation_complete r'"
    using assms(2,3) by (simp add: observation_complete_def)
  ultimately show ?thesis
    using rows_permuted [OF assms(1), of quote] by (simp add: render_with_options_def observation_complete_def)
qed

definition sample_report :: "row list \<Rightarrow> report" where
  "sample_report rows =
     \<lparr> re_rows = rows, re_effect_complete = True, re_net_changes_known = True, re_control_mode = Map.empty \<rparr>"

definition sample_options :: render_options where
  "sample_options =
     \<lparr> ro_include_cost = False, ro_usage_in = 0, ro_usage_out = 0, ro_usage_by_actor = [], ro_at_seq_context = None \<rparr>"

theorem render_deterministic_witness:
  "\<exists>x y. x \<noteq> y \<and> (\<exists>out. render_with_options id (sample_report [x, y]) sample_options = Inr out) \<and>
     render_with_options id (sample_report [x, y]) sample_options =
     render_with_options id (sample_report [y, x]) sample_options"
proof -
  define i where "i = \<lparr> in_trace_id = ''t'', in_span_id = ''s'', in_parent_span_id = [], in_actor = ''a'',
    in_call_id = ''c'', in_name = ''write'', in_path = ''p'', in_change_type = ''added'', in_seq = 1 \<rparr>"
  define x y where "x = reported_row i" and "y = reported_row (i\<lparr>in_seq := 2\<rparr>)"
  have ne: "x \<noteq> y" by (simp add: x_def y_def i_def reported_row_def)
  have "mset (re_rows (sample_report [x, y])) = mset (re_rows (sample_report [y, x]))"
    by (simp add: sample_report_def add_mset_commute)
  moreover have "re_effect_complete (sample_report rs)" "re_net_changes_known (sample_report rs)" for rs
    by (simp_all add: sample_report_def)
  ultimately have "render_with_options id (sample_report [x, y]) sample_options =
      render_with_options id (sample_report [y, x]) sample_options \<and>
      (\<exists>out. render_with_options id (sample_report [x, y]) sample_options = Inr out)"
    using render_deterministic [of "sample_report [x, y]" "sample_report [y, x]" id sample_options] by blast
  with ne show ?thesis by blast
qed

end
