(* ===== verification/Egress.thy ===== *)
theory Egress
  imports Net_Addr Go_Bytes
begin

unbundle bit_operations_syntax

text \<open>
  The egress proxy (\<open>seams/world/local/egressproxy\<close>) and the pins of the world configuration
  (\<open>seams/world/local/egresspins.go\<close>): domain normalisation, the allowlist, operator pins, the
  address classes of \<open>net.IP\<close> and \<open>netip.Addr\<close>, and the decision on one request up to the dial.
  The resolver, the audit sink and the clock are fields of the proxy. A request yields the one
  attempt it submits to the sink, and the action that follows. The texts of errors are constructors.
\<close>

section \<open>Library functions\<close>

datatype host_port_error = MissingPort | TooManyColons | BadBracket

text \<open>\<open>net.SplitHostPort\<close>.\<close>

definition split_host_port :: "string \<Rightarrow> (host_port_error, string \<times> string) result" where
  "split_host_port hp =
     (case split_last (CHR '':'') hp of
        None \<Rightarrow> Inl MissingPort
      | Some (before, port) \<Rightarrow>
          if hd hp = CHR ''['' then
            (case cut_at (CHR '']'') hp of
               None \<Rightarrow> Inl BadBracket
             | Some (open_host, rest) \<Rightarrow>
                 if rest = [] then Inl MissingPort
                 else if length open_host + 1 \<noteq> length before
                   then Inl (if hd rest = CHR '':'' then TooManyColons else MissingPort)
                 else if CHR ''['' \<in> set (tl hp) \<or> CHR '']'' \<in> set rest then Inl BadBracket
                 else Inr (tl open_host, port))
          else if CHR '':'' \<in> set before then Inl TooManyColons
          else if CHR ''['' \<in> set hp \<or> CHR '']'' \<in> set hp then Inl BadBracket
          else Inr (before, port))"

text \<open>\<open>strconv.ParseUint\<close> in base 10 with 16 bits.\<close>

definition parse_uint16 :: "string \<Rightarrow> nat option" where
  "parse_uint16 s =
     (if s = [] \<or> \<not> list_all is_digit s \<or> dec_value 0 s > 65535 then None else Some (dec_value 0 s))"

definition trim_brackets :: "string \<Rightarrow> string" where
  "trim_brackets s = trim_right [''['', '']''] (trim_left [''['', '']''] s)"

text \<open>\<open>netip.ParseAddrPort\<close>; the zero \<open>AddrPort\<close>, which is not valid, is \<open>None\<close>.\<close>

type_synonym addr_port = "(ip_addr \<times> nat) option"

fun is_v6 :: "ip_addr \<Rightarrow> bool" where
  "is_v6 (IPv4 bs) = False"
| "is_v6 (IPv6 bs z) = True"

definition parse_addr_port :: "string \<Rightarrow> (ip_addr \<times> nat) option" where
  "parse_addr_port s =
     (case split_last (CHR '':'') s of
        None \<Rightarrow> None
      | Some (ip, port) \<Rightarrow>
          if ip = [] \<or> port = [] then None
          else (let v6 = (hd ip = CHR ''['') in
                if v6 \<and> (length ip < 2 \<or> last ip \<noteq> CHR '']'') then None
                else (case parse_uint16 port of
                        None \<Rightarrow> None
                      | Some n \<Rightarrow>
                          (case parse_addr (if v6 then butlast (tl ip) else ip) of
                             None \<Rightarrow> None
                           | Some a \<Rightarrow> if is_v6 a \<noteq> v6 then None else Some (a, n)))))"

text \<open>The classes of \<open>net.IP\<close>, whose bytes are four or sixteen, or another number for a malformed one.\<close>

definition v4_in_v6 :: "u8 list" where
  "v4_in_v6 = replicate 10 0 @ [0xFF, 0xFF]"

definition to4 :: "u8 list \<Rightarrow> u8 list option" where
  "to4 ip =
     (if length ip = 4 then Some ip
      else if length ip = 16 \<and> take 12 ip = v4_in_v6 then Some (drop 12 ip) else None)"

definition ip_equal :: "u8 list \<Rightarrow> u8 list \<Rightarrow> bool" where
  "ip_equal a b =
     (if length a = length b then a = b
      else if length a = 4 \<and> length b = 16 then b = v4_in_v6 @ a
      else if length a = 16 \<and> length b = 4 then a = v4_in_v6 @ b else False)"

definition v6_loopback :: "u8 list" where
  "v6_loopback = replicate 15 0 @ [1]"

definition is_unspecified :: "u8 list \<Rightarrow> bool" where
  "is_unspecified ip \<longleftrightarrow> ip_equal ip (v4_in_v6 @ [0, 0, 0, 0]) \<or> ip_equal ip (replicate 16 0)"

definition is_loopback :: "u8 list \<Rightarrow> bool" where
  "is_loopback ip =
     (case to4 ip of Some q \<Rightarrow> q ! 0 = 127 | None \<Rightarrow> ip_equal ip v6_loopback)"

definition is_private :: "u8 list \<Rightarrow> bool" where
  "is_private ip =
     (case to4 ip of
        Some q \<Rightarrow> q ! 0 = 10 \<or> (q ! 0 = 172 \<and> (q ! 1) AND 0xF0 = 16) \<or> (q ! 0 = 192 \<and> q ! 1 = 168)
      | None \<Rightarrow> length ip = 16 \<and> (ip ! 0) AND 0xFE = 0xFC)"

definition is_multicast :: "u8 list \<Rightarrow> bool" where
  "is_multicast ip =
     (case to4 ip of Some q \<Rightarrow> (q ! 0) AND 0xF0 = 0xE0 | None \<Rightarrow> length ip = 16 \<and> ip ! 0 = 0xFF)"

definition is_link_local_unicast :: "u8 list \<Rightarrow> bool" where
  "is_link_local_unicast ip =
     (case to4 ip of
        Some q \<Rightarrow> q ! 0 = 169 \<and> q ! 1 = 254
      | None \<Rightarrow> length ip = 16 \<and> ip ! 0 = 0xFE \<and> (ip ! 1) AND 0xC0 = 0x80)"

definition is_link_local_multicast :: "u8 list \<Rightarrow> bool" where
  "is_link_local_multicast ip =
     (case to4 ip of
        Some q \<Rightarrow> q ! 0 = 224 \<and> q ! 1 = 0 \<and> q ! 2 = 0
      | None \<Rightarrow> length ip = 16 \<and> ip ! 0 = 0xFF \<and> (ip ! 1) AND 0x0F = 2)"

definition is_global_unicast :: "u8 list \<Rightarrow> bool" where
  "is_global_unicast ip \<longleftrightarrow>
     (length ip = 4 \<or> length ip = 16) \<and> \<not> ip_equal ip (v4_in_v6 @ [255, 255, 255, 255]) \<and>
     \<not> is_unspecified ip \<and> \<not> is_loopback ip \<and> \<not> is_multicast ip \<and> \<not> is_link_local_unicast ip"

section \<open>Domains\<close>

datatype deny_reason =
    NotADomain | BadLabel | NotAscii | ConnectTarget | IpLiteral | BadPort
  | OutsideAllowlist | NoDnsResult | DnsFailed | NotPublic | ConnectPort | PinnedPort | NotAbsolute

definition domain_char :: "char \<Rightarrow> bool" where
  "domain_char c \<longleftrightarrow> (let n = (of_char c :: nat) in (97 \<le> n \<and> n \<le> 122) \<or> (48 \<le> n \<and> n \<le> 57) \<or> n = 45)"

fun check_labels :: "string list \<Rightarrow> deny_reason option" where
  "check_labels [] = None"
| "check_labels (l # ls) =
     (if l = [] \<or> length l > 63 \<or> hd l = CHR ''-'' \<or> last l = CHR ''-'' then Some BadLabel
      else if \<not> list_all domain_char l then Some NotAscii
      else check_labels ls)"

definition normalize_domain :: "unicode_lower \<Rightarrow> string \<Rightarrow> (deny_reason, string) result" where
  "normalize_domain ul raw =
     (let domain = to_lower ul (trim_suffix (trim_space raw) ''.'') in
      if domain = [] \<or> length domain > 253 \<or> parse_ip (trim_brackets domain) \<noteq> None then Inl NotADomain
      else (case check_labels (split_on (CHR ''.'') domain) of
              Some r \<Rightarrow> Inl r
            | None \<Rightarrow> Inr domain))"

definition normalize_allowlist :: "unicode_lower \<Rightarrow> string list \<Rightarrow> (deny_reason, string list) result" where
  "normalize_allowlist ul entries =
     rbind (rmap (normalize_domain ul) entries) (\<lambda>ds. Inr (sort (uniq ds)))"

definition allowlist_permits :: "string list \<Rightarrow> string \<Rightarrow> bool" where
  "allowlist_permits allowlist domain = list_ex (\<lambda>a. domain = a \<or> suffix (''.'' @ a) domain) allowlist"

definition target_host_port :: "string \<Rightarrow> string \<Rightarrow> (string \<times> string) option" where
  "target_host_port target meth =
     (case split_host_port target of
        Inr hp \<Rightarrow> Some hp
      | Inl _ \<Rightarrow> if meth = ''CONNECT'' then None else Some (target, ''80''))"

definition split_target ::
    "unicode_lower \<Rightarrow> string \<Rightarrow> string \<Rightarrow> (string \<times> deny_reason, string \<times> string) result" where
  "split_target ul target meth =
     (case target_host_port target meth of
        None \<Rightarrow> Inl ([], ConnectTarget)
      | Some (host, port) \<Rightarrow>
          (let raw_host = to_lower ul (trim_suffix (trim_brackets (trim_space host)) ''.'') in
           if parse_ip raw_host \<noteq> None then Inl (raw_host, IpLiteral)
           else (case normalize_domain ul host of
                   Inl r \<Rightarrow> Inl ([], r)
                 | Inr domain \<Rightarrow>
                     (case parse_uint16 port of
                        None \<Rightarrow> Inl (domain, BadPort)
                      | Some n \<Rightarrow> if n = 0 then Inl (domain, BadPort) else Inr (domain, show_nat n)))))"

definition is_public_ip :: "u8 list \<Rightarrow> bool" where
  "is_public_ip ip =
     (if \<not> is_global_unicast ip \<or> is_private ip \<or> is_loopback ip \<or> is_link_local_unicast ip \<or>
         is_link_local_multicast ip \<or> is_unspecified ip \<or> is_multicast ip then False
      else (case to4 ip of Some q \<Rightarrow> \<not> (q ! 0 = 100 \<and> (q ! 1) AND 0xC0 = 64) | None \<Rightarrow> True))"

section \<open>Pins\<close>

datatype pin_error =
    TooManyPins | PinDomain deny_reason | PinDuplicate string | PinFormat | PinInvalid | PinZone
  | PinMapped | PinLoopback | PinLinkLocal | PinMulticast | PinUnspecified | PinPort | PinPolicy deny_reason
  | PinOutsidePolicy string

definition max_pins :: nat where
  "max_pins = 4"

record pin =
  pn_domain :: string
  pn_address :: addr_port

fun addr_bytes :: "ip_addr \<Rightarrow> u8 list" where
  "addr_bytes (IPv4 bs) = bs"
| "addr_bytes (IPv6 bs z) = bs"

definition validate_pin_address :: "addr_port \<Rightarrow> pin_error option" where
  "validate_pin_address ap =
     (case ap of
        None \<Rightarrow> Some PinInvalid
      | Some (a, port) \<Rightarrow>
          (let ip = addr_bytes a in
           if addr_zone a \<noteq> [] then Some PinZone
           else if is_v6 a \<and> take 12 ip = v4_in_v6 then Some PinMapped
           else if is_loopback ip then Some PinLoopback
           else if is_link_local_unicast ip \<or> is_link_local_multicast ip then Some PinLinkLocal
           else if is_multicast ip then Some PinMulticast
           else if ip = replicate (length ip) 0 then Some PinUnspecified
           else if port = 0 then Some PinPort
           else None))"

definition parse_pin_address :: "string \<Rightarrow> (pin_error, addr_port) result" where
  "parse_pin_address s =
     (case parse_addr_port s of
        None \<Rightarrow> Inl PinFormat
      | Some ap \<Rightarrow> (case validate_pin_address (Some ap) of Some e \<Rightarrow> Inl e | None \<Rightarrow> Inr (Some ap)))"

definition normalize_pin_domain :: "unicode_lower \<Rightarrow> string \<Rightarrow> (pin_error, string) result" where
  "normalize_pin_domain ul d = rmap_error PinDomain (normalize_domain ul d)"

definition parse_pin_flag :: "unicode_lower \<Rightarrow> string \<Rightarrow> (pin_error, pin) result" where
  "parse_pin_flag ul s =
     (case cut_at (CHR ''='') s of
        None \<Rightarrow> Inl PinFormat
      | Some (domain, address) \<Rightarrow>
          rbind (parse_pin_address address) (\<lambda>ap.
          rbind (normalize_pin_domain ul domain) (\<lambda>d.
          Inr \<lparr> pn_domain = d, pn_address = ap \<rparr>)))"

type_synonym pin_map = "(string \<times> addr_port) list"

definition normalize_pin :: "unicode_lower \<Rightarrow> pin_map \<Rightarrow> pin \<Rightarrow> (pin_error, pin_map) result" where
  "normalize_pin ul m p =
     rbind (normalize_pin_domain ul (pn_domain p)) (\<lambda>d.
       if map_of m d \<noteq> None then Inl (PinDuplicate d)
       else (case validate_pin_address (pn_address p) of
               Some e \<Rightarrow> Inl e
             | None \<Rightarrow> Inr (m @ [(d, pn_address p)])))"

definition normalize_pins :: "unicode_lower \<Rightarrow> pin list \<Rightarrow> (pin_error, pin_map) result" where
  "normalize_pins ul pins =
     (if length pins > max_pins then Inl TooManyPins else rfold (normalize_pin ul) [] pins)"

definition pin_domains :: "pin_map \<Rightarrow> string list" where
  "pin_domains m = sort (map fst m)"

definition normalize_egress_pins ::
    "unicode_lower \<Rightarrow> (string \<times> string) list \<Rightarrow> (pin_error, pin_map) result" where
  "normalize_egress_pins ul entries =
     (if length entries > max_pins then Inl TooManyPins
      else rbind (rmap (\<lambda>(d, a). rbind (parse_pin_address a) (\<lambda>ap. Inr \<lparr> pn_domain = d, pn_address = ap \<rparr>)) entries)
             (normalize_pins ul))"

definition egress_pins_within_allowlist :: "pin_map \<Rightarrow> string list \<Rightarrow> pin_error option" where
  "egress_pins_within_allowlist m allowlist =
     map_option PinOutsidePolicy (find (\<lambda>d. \<not> allowlist_permits allowlist d) (pin_domains m))"

definition validate_egress_pins_within_policy ::
    "unicode_lower \<Rightarrow> pin_map \<Rightarrow> string list \<Rightarrow> pin_error option" where
  "validate_egress_pins_within_policy ul m egress =
     (case normalize_allowlist ul egress of
        Inl r \<Rightarrow> Some (PinPolicy r)
      | Inr allowlist \<Rightarrow> egress_pins_within_allowlist m allowlist)"

definition normalize_pin_map :: "unicode_lower \<Rightarrow> pin_map \<Rightarrow> (pin_error, pin_map) result" where
  "normalize_pin_map ul m = normalize_pins ul (map (\<lambda>(d, a). \<lparr> pn_domain = d, pn_address = a \<rparr>) m)"

section \<open>The proxy\<close>

record attempt =
  at_domain :: string
  at_method :: string
  at_request_bytes :: int
  at_unix_ms :: int
  at_allowed :: bool
  at_reason :: "deny_reason option"

text \<open>\<open>resolver\<close> gives \<open>None\<close> on a failed lookup; \<open>submit\<close> tells whether the sink took the attempt.\<close>

record proxy =
  px_allowlist :: "string list"
  px_pins :: pin_map
  px_resolver :: "string \<Rightarrow> u8 list list option"
  px_submit :: "attempt \<Rightarrow> bool"
  px_now :: int

definition new_proxy ::
    "unicode_lower \<Rightarrow> string list \<Rightarrow> pin_map \<Rightarrow> (string \<Rightarrow> u8 list list option) \<Rightarrow> (attempt \<Rightarrow> bool) \<Rightarrow> int
       \<Rightarrow> (pin_error, proxy) result" where
  "new_proxy ul entries pins resolver submit now =
     rbind (rmap_error PinPolicy (normalize_allowlist ul entries)) (\<lambda>allowlist.
     rbind (normalize_pin_map ul pins) (\<lambda>m.
     Inr \<lparr> px_allowlist = allowlist, px_pins = m, px_resolver = resolver, px_submit = submit, px_now = now \<rparr>))"

datatype outcome = AuditUnavailable | Denied | Granted string string "u8 list"

definition audit_deny :: "proxy \<Rightarrow> string \<Rightarrow> string \<Rightarrow> int \<Rightarrow> deny_reason \<Rightarrow> attempt \<times> outcome" where
  "audit_deny p domain meth sz reason =
     (let a = \<lparr> at_domain = domain, at_method = meth, at_request_bytes = sz, at_unix_ms = px_now p,
                at_allowed = False, at_reason = Some reason \<rparr> in
      (a, if px_submit p a then Denied else AuditUnavailable))"

definition audit_allow :: "proxy \<Rightarrow> string \<Rightarrow> string \<Rightarrow> string \<Rightarrow> int \<Rightarrow> u8 list \<Rightarrow> attempt \<times> outcome" where
  "audit_allow p domain port meth sz ip =
     (let a = \<lparr> at_domain = domain, at_method = meth, at_request_bytes = sz, at_unix_ms = px_now p,
                at_allowed = True, at_reason = None \<rparr> in
      (a, if px_submit p a then Granted domain port ip else AuditUnavailable))"

definition authorize_pinned ::
    "proxy \<Rightarrow> string \<Rightarrow> string \<Rightarrow> string \<Rightarrow> int \<Rightarrow> ip_addr \<times> nat \<Rightarrow> attempt \<times> outcome" where
  "authorize_pinned p domain port meth sz ap =
     (if port \<noteq> show_nat (snd ap) then audit_deny p domain meth sz PinnedPort
      else if meth = ''CONNECT'' \<and> port \<noteq> ''443'' then audit_deny p domain meth sz ConnectPort
      else audit_allow p domain port meth sz (addr_bytes (fst ap)))"

definition authorize :: "unicode_lower \<Rightarrow> proxy \<Rightarrow> string \<Rightarrow> string \<Rightarrow> int \<Rightarrow> attempt \<times> outcome" where
  "authorize ul p target meth sz =
     (case split_target ul target meth of
        Inl (domain, r) \<Rightarrow> audit_deny p domain meth sz r
      | Inr (domain, port) \<Rightarrow>
          if \<not> allowlist_permits (px_allowlist p) domain then audit_deny p domain meth sz OutsideAllowlist
          else (case map_of (px_pins p) domain of
                  Some (Some ap) \<Rightarrow> authorize_pinned p domain port meth sz ap
                | Some None \<Rightarrow> audit_deny p domain meth sz PinnedPort
                | None \<Rightarrow>
                    (case px_resolver p domain of
                       None \<Rightarrow> audit_deny p domain meth sz DnsFailed
                     | Some [] \<Rightarrow> audit_deny p domain meth sz NoDnsResult
                     | Some (ip # ips) \<Rightarrow>
                         if \<not> list_all is_public_ip (ip # ips) then audit_deny p domain meth sz NotPublic
                         else if meth = ''CONNECT'' \<and> port \<noteq> ''443'' then audit_deny p domain meth sz ConnectPort
                         else audit_allow p domain port meth sz ip)))"

text \<open>\<open>ServeHTTP\<close> up to the first effect on the network.\<close>

record http_request =
  hr_method :: string
  hr_url :: "(string \<times> string) option"
  hr_host :: string
  hr_content_length :: int

datatype action = Forbidden | Unavailable | Dial string string "u8 list"

definition request_bytes :: "http_request \<Rightarrow> int" where
  "request_bytes r = (if hr_content_length r > 0 then hr_content_length r else 0)"

fun answer :: "outcome \<Rightarrow> action" where
  "answer AuditUnavailable = Unavailable"
| "answer Denied = Forbidden"
| "answer (Granted domain port ip) = Dial domain port ip"

definition serve_http :: "unicode_lower \<Rightarrow> proxy \<Rightarrow> http_request \<Rightarrow> attempt \<times> action" where
  "serve_http ul p r =
     (case hr_url r of
        Some (scheme, host) \<Rightarrow>
          if scheme \<noteq> ''http'' \<or> host = []
          then map_prod id answer (audit_deny p [] (hr_method r) (request_bytes r) NotAbsolute)
          else map_prod id answer (authorize ul p host (hr_method r) (request_bytes r))
      | None \<Rightarrow> map_prod id answer (audit_deny p [] (hr_method r) (request_bytes r) NotAbsolute))"

definition serve_connect :: "unicode_lower \<Rightarrow> proxy \<Rightarrow> http_request \<Rightarrow> attempt \<times> action" where
  "serve_connect ul p r =
     (case authorize ul p (hr_host r) (hr_method r) 0 of
        (a, Granted domain port ip) \<Rightarrow> (a, if port \<noteq> ''443'' then Forbidden else Dial domain port ip)
      | (a, out) \<Rightarrow> (a, answer out))"

definition serve :: "unicode_lower \<Rightarrow> proxy \<Rightarrow> http_request \<Rightarrow> attempt \<times> action" where
  "serve ul p r = (if hr_method r = ''CONNECT'' then serve_connect ul p r else serve_http ul p r)"

section \<open>Lemmas: domains\<close>

lemma check_labels_None_iff:
  "check_labels ls = None \<longleftrightarrow>
     (\<forall>l\<in>set ls. l \<noteq> [] \<and> length l \<le> 63 \<and> hd l \<noteq> CHR ''-'' \<and> last l \<noteq> CHR ''-'' \<and> list_all domain_char l)"
  by (induction ls) auto

lemma split_on_chars: "c \<in> set s \<Longrightarrow> c = sep \<or> (\<exists>l\<in>set (split_on sep s). c \<in> set l)"
proof (induction s)
  case (Cons x xs)
  then show ?case by (cases "split_on sep xs") auto
qed simp

lemma last_split_on: "s \<noteq> [] \<Longrightarrow> last s = sep \<Longrightarrow> [] \<in> set (split_on sep s)"
  using split_on_append [of sep "butlast s" "[]"] by (metis append_butlast_last_id in_set_conv_decomp split_on.simps(1))

lemma space_ends: "e \<in> set space_encodings \<Longrightarrow> e \<noteq> [] \<and> \<not> domain_char (hd e) \<and> hd e \<noteq> CHR ''.'' \<and>
    \<not> domain_char (last e) \<and> last e \<noteq> CHR ''.''"
  by (auto simp: space_encodings_def ascii_spaces_def domain_char_def)

lemma lower_domain_char: "domain_char c \<or> c = CHR ''.'' \<Longrightarrow> lower_byte c = c \<and> (of_char c :: nat) < 128"
  by (auto simp: domain_char_def lower_byte_def Let_def)

lemma trim_space_domain:
  assumes "s \<noteq> []" "domain_char (hd s) \<or> hd s = CHR ''.''" "domain_char (last s) \<or> last s = CHR ''.''"
  shows "trim_space s = s"
proof -
  have "\<not> prefix e s" "\<not> suffix e s" if "e \<in> set space_encodings" for e
    using space_ends [OF that] assms by (metis hd_append2 prefix_def, metis last_appendR suffix_def)
  then show ?thesis by (simp add: trim_space_def trim_left_id trim_right_id)
qed

lemma normalize_domain_Inr:
  assumes "normalize_domain ul raw = Inr d"
  shows "d \<noteq> []" "\<forall>c\<in>set d. domain_char c \<or> c = CHR ''.''" "last d \<noteq> CHR ''.''"
    "normalize_domain ul d = Inr d"
proof -
  from assms have d: "d \<noteq> []" "length d \<le> 253" "parse_ip (trim_brackets d) = None"
    and ls: "check_labels (split_on (CHR ''.'') d) = None"
    by (auto simp: normalize_domain_def Let_def split: if_splits option.splits)
  show "d \<noteq> []" by fact
  show chars: "\<forall>c\<in>set d. domain_char c \<or> c = CHR ''.''"
    using ls split_on_chars [of _ d "CHR ''.''"] unfolding check_labels_None_iff list_all_iff by blast
  show dot: "last d \<noteq> CHR ''.''"
    using ls last_split_on [OF d(1)] unfolding check_labels_None_iff by blast
  have "trim_space d = d" using chars d(1) by (intro trim_space_domain) simp_all
  moreover have "trim_suffix d ''.'' = d"
    using dot by (auto simp: trim_suffix_def suffix_def)
  moreover have "to_lower ul d = d"
  proof -
    have "is_ascii d" "map lower_byte d = d"
      using chars lower_domain_char by (auto simp: is_ascii_def list_all_iff intro: map_idI)
    then show ?thesis by (simp add: to_lower_def)
  qed
  ultimately show "normalize_domain ul d = Inr d"
    using d ls by (simp add: normalize_domain_def)
qed

section \<open>Lemmas: pins\<close>

definition pins_ok :: "unicode_lower \<Rightarrow> pin_map \<Rightarrow> bool" where
  "pins_ok ul m \<longleftrightarrow> distinct (map fst m) \<and>
     (\<forall>(d, a)\<in>set m. normalize_domain ul d = Inr d \<and> validate_pin_address a = None)"

lemma normalize_pin_ok:
  "normalize_pin ul m p = Inr m' \<Longrightarrow> pins_ok ul m \<Longrightarrow> pins_ok ul m' \<and> length m' = Suc (length m)"
  by (auto simp: normalize_pin_def normalize_pin_domain_def pins_ok_def result_simps map_of_eq_None_iff
      normalize_domain_Inr split: if_splits option.splits)

lemma normalize_pins_fold:
  "rfold (normalize_pin ul) m pins = Inr m' \<Longrightarrow> pins_ok ul m \<Longrightarrow>
   pins_ok ul m' \<and> length m' = length m + length pins"
  by (induction pins arbitrary: m) (fastforce simp: result_simps dest: normalize_pin_ok)+

lemma normalize_pins_Inr:
  "normalize_pins ul pins = Inr m \<Longrightarrow> pins_ok ul m \<and> length m = length pins \<and> length m \<le> max_pins"
  using normalize_pins_fold [of ul "[]" pins m] by (auto simp: normalize_pins_def pins_ok_def split: if_splits)

lemma authorize_Granted:
  assumes "authorize ul p target meth n = (a, Granted domain port ip)"
  shows "at_allowed a \<and> at_domain a = domain \<and> px_submit p a \<and> allowlist_permits (px_allowlist p) domain \<and>
    (meth = ''CONNECT'' \<longrightarrow> port = ''443'') \<and>
    (case map_of (px_pins p) domain of
       Some (Some (addr, q)) \<Rightarrow> ip = addr_bytes addr \<and> port = show_nat q
     | Some None \<Rightarrow> False
     | None \<Rightarrow> (\<exists>ips. px_resolver p domain = Some (ip # ips) \<and> list_all is_public_ip (ip # ips)))"
  using assms
  by (auto simp: authorize_def authorize_pinned_def audit_deny_def audit_allow_def Let_def
      split: sum.splits option.splits list.splits if_splits prod.splits)

lemma answer_Dial: "answer out = Dial d q i \<longleftrightarrow> out = Granted d q i"
  by (cases out) auto

lemma audit_deny_not_granted: "snd (audit_deny p d m n r) \<noteq> Granted d' q i"
  by (simp add: audit_deny_def Let_def)

lemma serve_connect_Dial:
  "serve_connect ul p r = (a, Dial d q i) \<Longrightarrow> authorize ul p (hr_host r) (hr_method r) 0 = (a, Granted d q i)"
  by (cases "authorize ul p (hr_host r) (hr_method r) 0"; cases "snd (authorize ul p (hr_host r) (hr_method r) 0)")
    (auto simp: serve_connect_def split: if_splits)

lemma answered_Dial: "map_prod id answer x = (a, Dial d q i) \<longleftrightarrow> x = (a, Granted d q i)"
  by (cases x) (simp add: answer_Dial)

lemma denied_not_granted: "audit_deny p d m n r \<noteq> (a, Granted d' q i)"
  using audit_deny_not_granted [of p d m n r] by (metis snd_conv)

lemma serve_http_Dial:
  "serve_http ul p r = (a, Dial d q i) \<Longrightarrow> \<exists>target n. authorize ul p target (hr_method r) n = (a, Granted d q i)"
  unfolding serve_http_def
  by (auto simp: answered_Dial denied_not_granted split: option.splits if_splits) blast

section \<open>Properties\<close>

definition sample_proxy :: proxy where
  "sample_proxy =
     \<lparr> px_allowlist = [''b.io''], px_pins = [], px_resolver = (\<lambda>_. Some [[93, 184, 216, 34]]),
       px_submit = (\<lambda>_. True), px_now = 7 \<rparr>"

definition sample_request :: http_request where
  "sample_request =
     \<lparr> hr_method = ''CONNECT'', hr_url = None, hr_host = ''a.b.io:443'', hr_content_length = 0 \<rparr>"

lemma sample_strings:
  "trim_space ''a.b.io'' = ''a.b.io''" "trim_brackets ''a.b.io'' = ''a.b.io''" "parse_ip ''a.b.io'' = None"
proof -
  show "trim_space ''a.b.io'' = ''a.b.io''" by (rule trim_space_domain) (simp_all add: domain_char_def)
  show "trim_brackets ''a.b.io'' = ''a.b.io''"
  proof -
    have "trim_left [''['', '']''] ''a.b.io'' = ''a.b.io''" by (rule trim_left_id) auto
    moreover have "trim_right [''['', '']''] ''a.b.io'' = ''a.b.io''" by (rule trim_right_id) (auto simp: suffix_to_prefix)
    ultimately show ?thesis by (simp add: trim_brackets_def)
  qed
  show "parse_ip ''a.b.io'' = None"
    by (simp add: parse_ip_def parse_addr_def parse_ipv4_fields_def quad_field_def is_digit_def)
qed

lemma sample_domain: "normalize_domain id ''a.b.io'' = Inr ''a.b.io''"
  by (simp add: normalize_domain_def sample_strings trim_suffix_def suffix_def to_lower_def is_ascii_def
      lower_byte_def domain_char_def)

lemma sample_target: "split_target id ''a.b.io:443'' ''CONNECT'' = Inr (''a.b.io'', ''443'')"
proof -
  have "split_host_port ''a.b.io:443'' = Inr (''a.b.io'', ''443'')"
    by (simp add: split_host_port_def split_last_def)
  moreover have "parse_uint16 ''443'' = Some 443" by (simp add: parse_uint16_def is_digit_def digit_val_def)
  moreover have "show_nat 443 = ''443''" by code_simp
  ultimately show ?thesis
    by (simp add: split_target_def target_host_port_def sample_strings sample_domain trim_suffix_def suffix_def
        to_lower_def is_ascii_def lower_byte_def)
qed

lemma sample_served: "\<exists>a. serve id sample_proxy sample_request = (a, Dial ''a.b.io'' ''443'' [93, 184, 216, 34])"
proof -
  have "replicate 16 0 \<noteq> replicate 10 0 @ [255, 255, 93, 184, 216, 34 :: u8]"
    by (rule notI, drule arg_cong [of _ _ last]) simp
  then have "is_public_ip [93, 184, 216, 34]"
    by (simp add: is_public_ip_def is_global_unicast_def is_private_def is_loopback_def is_link_local_unicast_def
        is_link_local_multicast_def is_unspecified_def is_multicast_def to4_def ip_equal_def v4_in_v6_def)
  then show ?thesis
    by (simp add: serve_def serve_connect_def authorize_def sample_target sample_request_def sample_proxy_def
        allowlist_permits_def suffix_def audit_allow_def)
qed

text \<open>
  C30. The proxy opens a connection only after its audit sink has taken an attempt marked as allowed
  for that domain, only to a domain the allowlist permits, for \<open>CONNECT\<close> only to port 443, and only
  to an address the operator pinned for the domain and port or, for a domain without a pin, to the
  first of the resolved addresses when every one of them is public.
\<close>

theorem egress_dials_only_permitted:
  assumes "serve ul p r = (a, Dial domain port ip)"
  shows "at_allowed a \<and> at_domain a = domain \<and> px_submit p a \<and> allowlist_permits (px_allowlist p) domain \<and>
    (hr_method r = ''CONNECT'' \<longrightarrow> port = ''443'') \<and>
    (case map_of (px_pins p) domain of
       Some (Some (addr, q)) \<Rightarrow> ip = addr_bytes addr \<and> port = show_nat q
     | Some None \<Rightarrow> False
     | None \<Rightarrow> (\<exists>ips. px_resolver p domain = Some (ip # ips) \<and> list_all is_public_ip (ip # ips)))"
proof -
  have "\<exists>target n. authorize ul p target (hr_method r) n = (a, Granted domain port ip)"
    using assms serve_connect_Dial serve_http_Dial unfolding serve_def by (metis (full_types))
  then obtain target n where "authorize ul p target (hr_method r) n = (a, Granted domain port ip)" by blast
  then show ?thesis by (rule authorize_Granted)
qed

theorem egress_dials_only_permitted_witness:
  "\<exists>a ips. serve id sample_proxy sample_request = (a, Dial ''a.b.io'' ''443'' [93, 184, 216, 34]) \<and>
     px_submit sample_proxy a \<and> px_resolver sample_proxy ''a.b.io'' = Some ([93, 184, 216, 34] # ips) \<and>
     list_all is_public_ip ([93, 184, 216, 34] # ips)"
proof -
  obtain a where a: "serve id sample_proxy sample_request = (a, Dial ''a.b.io'' ''443'' [93, 184, 216, 34])"
    using sample_served by blast
  have "map_of (px_pins sample_proxy) ''a.b.io'' = None" by (simp add: sample_proxy_def)
  with a egress_dials_only_permitted [OF a] show ?thesis by auto
qed

lemma validate_pin_address_None:
  assumes "validate_pin_address ap = None"
  shows "\<exists>a q. ap = Some (a, q) \<and> 0 < q \<and> addr_zone a = [] \<and> \<not> is_loopback (addr_bytes a) \<and>
    \<not> is_link_local_unicast (addr_bytes a) \<and> \<not> is_multicast (addr_bytes a)"
proof (cases ap)
  case None
  with assms show ?thesis by (simp add: validate_pin_address_def)
next
  case (Some x)
  obtain a q where "x = (a, q)" by (cases x)
  with assms Some show ?thesis
    by (simp add: validate_pin_address_def Let_def split: if_split_asm)
qed

lemma within_policy_permits:
  assumes "validate_egress_pins_within_policy ul m egress = None"
  shows "\<exists>allowlist. normalize_allowlist ul egress = Inr allowlist \<and> (\<forall>d\<in>fst ` set m. allowlist_permits allowlist d)"
proof (cases "normalize_allowlist ul egress")
  case (Inl r)
  with assms show ?thesis by (simp add: validate_egress_pins_within_policy_def)
next
  case (Inr allowlist)
  with assms have "find (\<lambda>d. \<not> allowlist_permits allowlist d) (pin_domains m) = None"
    by (simp add: validate_egress_pins_within_policy_def egress_pins_within_allowlist_def)
  then have "\<forall>d\<in>fst ` set m. allowlist_permits allowlist d"
    unfolding find_None_iff by (simp add: pin_domains_def)
  with Inr show ?thesis by blast
qed

text \<open>
  C31. A normalised set of pins has at most four entries with distinct domains in normal form, each
  an address that is neither loopback, link-local, multicast nor without a port; when it passes
  the check against the policy, every pinned domain is already permitted by the policy's egress
  list: a pin never adds a domain.
\<close>

theorem pins_never_widen:
  assumes "normalize_egress_pins ul entries = Inr m"
  shows "length m = length entries \<and> length m \<le> max_pins \<and> distinct (map fst m) \<and>
    (\<forall>(d, ap)\<in>set m. normalize_domain ul d = Inr d \<and>
       (\<exists>a q. ap = Some (a, q) \<and> 0 < q \<and> addr_zone a = [] \<and> \<not> is_loopback (addr_bytes a) \<and>
              \<not> is_link_local_unicast (addr_bytes a) \<and> \<not> is_multicast (addr_bytes a))) \<and>
    (validate_egress_pins_within_policy ul m egress = None \<longrightarrow>
       (\<exists>allowlist. normalize_allowlist ul egress = Inr allowlist \<and> (\<forall>d\<in>fst ` set m. allowlist_permits allowlist d)))"
proof -
  obtain pins where pins: "normalize_pins ul pins = Inr m" "length pins = length entries"
    using assms unfolding normalize_egress_pins_def
    by (auto simp: rbind_Inr_iff dest: rmap_Inr_length split: if_split_asm)
  then have m: "pins_ok ul m" "length m = length entries" "length m \<le> max_pins"
    using normalize_pins_Inr [OF pins(1)] by simp_all
  show ?thesis
  proof (intro conjI impI ballI)
    show "length m = length entries" "length m \<le> max_pins" by fact+
    show "distinct (map fst m)" using m(1) by (simp add: pins_ok_def)
    show "case x of (d, ap) \<Rightarrow> normalize_domain ul d = Inr d \<and>
       (\<exists>a q. ap = Some (a, q) \<and> 0 < q \<and> addr_zone a = [] \<and> \<not> is_loopback (addr_bytes a) \<and>
              \<not> is_link_local_unicast (addr_bytes a) \<and> \<not> is_multicast (addr_bytes a))" if "x \<in> set m" for x
      using that m(1) validate_pin_address_None [of "snd x"] by (cases x) (auto simp: pins_ok_def)
  qed (rule within_policy_permits)
qed

lemma sample_pins:
  "normalize_egress_pins id [(''a.b.io'', ''10.0.0.1:443'')] = Inr [(''a.b.io'', Some (IPv4 [10, 0, 0, 1], 443))]"
proof -
  have "parse_addr_port ''10.0.0.1:443'' = Some (IPv4 [10, 0, 0, 1], 443)"
    by (simp add: parse_addr_port_def split_last_def parse_uint16_def is_digit_def digit_val_def parse_addr_def
        parse_ipv4_fields_def quad_field_def)
  moreover have "validate_pin_address (Some (IPv4 [10, 0, 0, 1], 443)) = None"
  proof -
    have "replicate 4 (0 :: u8) = [0, 0, 0, 0]" by (simp add: numeral_eq_Suc)
    then show ?thesis
      by (simp add: validate_pin_address_def is_loopback_def is_link_local_unicast_def is_link_local_multicast_def
          is_multicast_def to4_def)
  qed
  ultimately show ?thesis
    using sample_domain
    by (simp add: normalize_egress_pins_def parse_pin_address_def normalize_pins_def normalize_pin_def
        normalize_pin_domain_def max_pins_def rmap_error_def)
qed

theorem pins_never_widen_witness:
  "\<exists>m. normalize_egress_pins id [(''a.b.io'', ''10.0.0.1:443'')] = Inr m \<and> length m = 1 \<and> distinct (map fst m)"
  using pins_never_widen [OF sample_pins, of "[]"] sample_pins by simp

end
