(* ===== verification/Relay_Session.thy ===== *)
theory Relay_Session
  imports Payloads
begin

text \<open>
  The session operations of the approval relay (\<open>seams/approvalrelay/session.go\<close>,
  \<open>rebuild.go\<close>): the \<open>events_tail\<close> projection of the log with its validation, status, checked
  usage totals and paging, and the decisions rebuilt from a log.
\<close>

section \<open>The projection\<close>

record relay_envelope =
  le_seq :: int
  le_ts :: int
  le_kind :: string
  le_actor :: string
  le_span_id :: string
  le_trace_id :: string
  le_parent_span_id :: "string option"
  le_usage_in :: "i64 option"
  le_usage_out :: "i64 option"

record session_status =
  ss_state :: string
  ss_done_status :: string
  ss_terminal_seq :: int
  ss_session_mode :: string
  ss_last_seq :: int
  ss_last_activity_ts :: int
  ss_usage_in_total :: i64
  ss_usage_out_total :: i64

record tail_result =
  tl_status :: string
  tl_reason :: string
  tl_session_id :: string
  tl_events :: "relay_envelope list"
  tl_next_from_seq :: int
  tl_more :: bool
  tl_session :: session_status

datatype tail_error =
    NegativeFrom int | NotContiguous int int | MissingField int string | OtherSession int string
  | TailUsage int usage_cause | TailPayload int

definition max_tail_events :: nat where
  "max_tail_events = 1000"

definition check_envelope :: "event \<Rightarrow> int \<Rightarrow> string \<Rightarrow> tail_error option" where
  "check_envelope e want session_id =
     (if ev_seq e \<noteq> want then Some (NotContiguous (ev_seq e) want)
      else if ev_ts e \<le> 0 then Some (MissingField (ev_seq e) ''ts'')
      else if ev_kind e = [] then Some (MissingField (ev_seq e) ''kind'')
      else if ev_actor e = [] then Some (MissingField (ev_seq e) ''actor'')
      else if ev_span_id e = [] then Some (MissingField (ev_seq e) ''span_id'')
      else if ev_trace_id e = [] then Some (MissingField (ev_seq e) ''trace_id'')
      else if ev_trace_id e \<noteq> session_id then Some (OtherSession (ev_seq e) (ev_trace_id e))
      else None)"

text \<open>\<open>addChecked\<close> is the sum of the replay with the same two refusals.\<close>

definition add_checked :: "int \<Rightarrow> i64 \<Rightarrow> i64 option \<Rightarrow> (tail_error, i64) result" where
  "add_checked seq tot v =
     (case v of None \<Rightarrow> Inr tot | Some v \<Rightarrow> rmap_error (TailUsage seq) (add_usage tot v))"

definition status_kind :: "event \<Rightarrow> session_status \<Rightarrow> (tail_error, session_status) result" where
  "status_kind e st =
     (if ev_kind e = kind_subagent_spawn then
        (let st = (if ss_state st = ''pending'' then st\<lparr>ss_state := ''running''\<rparr> else st) in
         case decode_spawn (ev_payload e) of
           None \<Rightarrow> Inl (TailPayload (ev_seq e))
         | Some p \<Rightarrow> Inr (case sp_session_mode p of None \<Rightarrow> st | Some m \<Rightarrow> st\<lparr>ss_session_mode := m\<rparr>))
      else if ev_kind e = kind_subagent_done then
        (case decode_done (ev_payload e) of
           None \<Rightarrow> Inl (TailPayload (ev_seq e))
         | Some p \<Rightarrow>
             Inr (if ss_state st \<noteq> ''exited''
                  then st\<lparr>ss_state := ''exited'', ss_done_status := dn_status p, ss_terminal_seq := ev_seq e\<rparr>
                  else st))
      else if ev_kind e = kind_session_end then
        Inr (if ss_state st \<noteq> ''exited'' then st\<lparr>ss_state := ''exited'', ss_terminal_seq := ev_seq e\<rparr> else st)
      else Inr st)"

definition envelope_of :: "event \<Rightarrow> relay_envelope" where
  "envelope_of e =
     \<lparr> le_seq = ev_seq e, le_ts = ev_ts e, le_kind = ev_kind e, le_actor = ev_actor e, le_span_id = ev_span_id e,
       le_trace_id = ev_trace_id e, le_parent_span_id = ev_parent_span_id e, le_usage_in = ev_usage_in e,
       le_usage_out = ev_usage_out e \<rparr>"

definition page_event :: "int \<Rightarrow> nat \<Rightarrow> event \<Rightarrow> tail_result \<Rightarrow> tail_result" where
  "page_event from_seq limit e out =
     (if ev_seq e > from_seq then
        (if length (tl_events out) = limit then out\<lparr>tl_more := True\<rparr>
         else out\<lparr>tl_events := tl_events out @ [envelope_of e], tl_next_from_seq := ev_seq e\<rparr>)
      else out)"

definition tail_step ::
    "string \<Rightarrow> int \<Rightarrow> nat \<Rightarrow> nat \<times> tail_result \<Rightarrow> event \<Rightarrow> (tail_error, nat \<times> tail_result) result" where
  "tail_step session_id from_seq limit acc e =
     (let (i, out) = acc in
      case check_envelope e (int i + 1) session_id of
        Some err \<Rightarrow> Inl err
      | None \<Rightarrow>
          (let st = (tl_session out)\<lparr>ss_last_seq := ev_seq e, ss_last_activity_ts := ev_ts e\<rparr> in
           rbind (add_checked (ev_seq e) (ss_usage_in_total st) (ev_usage_in e)) (\<lambda>tin.
           rbind (add_checked (ev_seq e) (ss_usage_out_total st) (ev_usage_out e)) (\<lambda>tout.
           rbind (status_kind e (st\<lparr>ss_usage_in_total := tin, ss_usage_out_total := tout\<rparr>)) (\<lambda>st.
           Inr (Suc i, page_event from_seq limit e (out\<lparr>tl_session := st\<rparr>)))))))"

definition tail_start :: "string \<Rightarrow> int \<Rightarrow> tail_result" where
  "tail_start session_id from_seq =
     \<lparr> tl_status = ''ok'', tl_reason = [], tl_session_id = session_id, tl_events = [], tl_next_from_seq = from_seq,
       tl_more = False,
       tl_session = \<lparr> ss_state = ''pending'', ss_done_status = [], ss_terminal_seq = 0, ss_session_mode = ''oneshot'',
         ss_last_seq = 0, ss_last_activity_ts = 0, ss_usage_in_total = 0, ss_usage_out_total = 0 \<rparr> \<rparr>"

definition project_session ::
    "event list \<Rightarrow> string \<Rightarrow> int \<Rightarrow> int \<Rightarrow> (tail_error, tail_result) result" where
  "project_session events session_id from_seq limit =
     (if from_seq < 0 then Inl (NegativeFrom from_seq)
      else (let n = (if limit \<le> 0 then max_tail_events else nat limit) in
            rbind (rfold (tail_step session_id from_seq n) (0, tail_start session_id from_seq) events)
              (\<lambda>(_, out). Inr out)))"

section \<open>Decisions rebuilt from the log\<close>

record relay_result =
  rs_status :: string
  rs_decision :: string
  rs_reason :: string
  rs_response_seq :: int
  rs_response_id :: string
  rs_request_digest :: string
  rs_policy_hash :: string
  rs_display_summary :: string
  rs_expires_at :: int
  rs_stop_id :: string
  rs_terminal_ref :: int
  rs_message_seq :: int

definition no_result :: relay_result where
  "no_result =
     \<lparr> rs_status = [], rs_decision = [], rs_reason = [], rs_response_seq = 0, rs_response_id = [],
       rs_request_digest = [], rs_policy_hash = [], rs_display_summary = [], rs_expires_at = 0, rs_stop_id = [],
       rs_terminal_ref = 0, rs_message_seq = 0 \<rparr>"

datatype request_key = RequestKey (key_trace: string) (key_span: string) (key_request: string)

definition rebuilt_result :: "int \<Rightarrow> policy_decision \<Rightarrow> relay_result" where
  "rebuilt_result seq p =
     (let r = no_result\<lparr>rs_status := ''decided'', rs_decision := pd_decision p, rs_response_seq := seq,
                        rs_response_id := raw_of (pd_response_id p), rs_reason := raw_of (pd_reason p)\<rparr> in
      if rs_reason r = ''EXPIRED'' \<or> rs_reason r = ''LEASE_ENDED''
      then r\<lparr>rs_status := ''expired'', rs_decision := ''deny''\<rparr> else r)"

definition rebuild_step :: "event \<Rightarrow> (request_key \<rightharpoonup> relay_result) \<Rightarrow> (request_key \<rightharpoonup> relay_result)" where
  "rebuild_step e m =
     (if ev_kind e \<noteq> kind_policy_decision then m
      else (case decode_policy_decision (ev_payload e) of
              None \<Rightarrow> m
            | Some p \<Rightarrow>
                (case pd_request_id p of
                   None \<Rightarrow> m
                 | Some q \<Rightarrow> m(RequestKey (ev_trace_id e) (ev_span_id e) q \<mapsto> rebuilt_result (ev_seq e) p))))"

definition rebuild :: "event list \<Rightarrow> (request_key \<rightharpoonup> relay_result)" where
  "rebuild events = fold rebuild_step events Map.empty"

section \<open>Lemmas\<close>

definition after :: "int \<Rightarrow> event list \<Rightarrow> event list" where
  "after from_seq es = filter (\<lambda>e. ev_seq e > from_seq) es"

definition usage_sum :: "(event \<Rightarrow> i64 option) \<Rightarrow> event list \<Rightarrow> int" where
  "usage_sum f es = (\<Sum>e\<leftarrow>es. case f e of None \<Rightarrow> 0 | Some v \<Rightarrow> sint v)"

definition paged :: "int \<Rightarrow> nat \<Rightarrow> event list \<Rightarrow> tail_result \<Rightarrow> bool" where
  "paged from_seq n es out \<longleftrightarrow>
     tl_events out = map envelope_of (take n (after from_seq es)) \<and>
     (tl_more out \<longleftrightarrow> n < length (after from_seq es)) \<and>
     tl_next_from_seq out = (if tl_events out = [] then from_seq else le_seq (last (tl_events out)))"

definition summed :: "event list \<Rightarrow> tail_result \<Rightarrow> bool" where
  "summed es out \<longleftrightarrow>
     sint (ss_usage_in_total (tl_session out)) = usage_sum ev_usage_in es \<and>
     sint (ss_usage_out_total (tl_session out)) = usage_sum ev_usage_out es \<and>
     0 \<le> usage_sum ev_usage_in es \<and> 0 \<le> usage_sum ev_usage_out es"

lemma page_event_paged:
  assumes "paged from_seq n es out" "0 < n"
  shows "paged from_seq n (es @ [e]) (page_event from_seq n e out)"
proof (cases "ev_seq e > from_seq")
  case False
  with assms show ?thesis by (simp add: paged_def page_event_def after_def)
next
  case True
  then have a: "after from_seq (es @ [e]) = after from_seq es @ [e]" by (simp add: after_def)
  show ?thesis
  proof (cases "length (after from_seq es) < n")
    case short: True
    with assms True a show ?thesis by (auto simp: paged_def page_event_def envelope_of_def)
  next
    case full: False
    with assms True a show ?thesis by (auto simp: paged_def page_event_def)
  qed
qed

lemma page_event_session [simp]: "tl_session (page_event from_seq n e out) = tl_session out"
  by (simp add: page_event_def)

lemma status_kind_usage:
  "status_kind e st = Inr st' \<Longrightarrow>
   ss_usage_in_total st' = ss_usage_in_total st \<and> ss_usage_out_total st' = ss_usage_out_total st"
  by (auto simp: status_kind_def Let_def split: if_splits option.splits)

lemma add_checked_Inr:
  assumes "add_checked q tot v = Inr w" "0 \<le> sint tot"
  shows "sint w = sint tot + (case v of None \<Rightarrow> 0 | Some v \<Rightarrow> sint v) \<and> sint tot \<le> sint w"
  using assms by (cases v) (auto simp: add_checked_def add_usage_Inr_iff sint_add_part)

lemma tail_step_Inr:
  assumes "tail_step sid from_seq n (i, out) e = Inr (j, out')"
  obtains tin tout st where "j = Suc i" "check_envelope e (int i + 1) sid = None"
    "add_checked (ev_seq e) (ss_usage_in_total (tl_session out)) (ev_usage_in e) = Inr tin"
    "add_checked (ev_seq e) (ss_usage_out_total (tl_session out)) (ev_usage_out e) = Inr tout"
    "ss_usage_in_total st = tin" "ss_usage_out_total st = tout"
    "out' = page_event from_seq n e (out\<lparr>tl_session := st\<rparr>)"
  using assms unfolding tail_step_def Let_def prod.case
  by (auto simp: rbind_Inr_iff dest!: status_kind_usage split: option.splits)

lemma check_envelope_seq: "check_envelope e q sid = None \<Longrightarrow> ev_seq e = q \<and> ev_trace_id e = sid"
  by (simp add: check_envelope_def split: if_split_asm)

lemma tail_fold:
  assumes "rfold (tail_step sid from_seq n) (0, tail_start sid from_seq) es = Inr (i, out)" "0 < n"
  shows "i = length es \<and> map ev_seq es = map int [1..<Suc i] \<and> (\<forall>e\<in>set es. ev_trace_id e = sid) \<and>
    paged from_seq n es out \<and> summed es out"
  using assms(1)
proof (induction es arbitrary: i out rule: rev_induct)
  case Nil
  then show ?case by (auto simp: paged_def summed_def tail_start_def after_def usage_sum_def)
next
  case (snoc e es)
  then obtain k mid where k: "rfold (tail_step sid from_seq n) (0, tail_start sid from_seq) es = Inr (k, mid)"
    "tail_step sid from_seq n (k, mid) e = Inr (i, out)"
    by (auto simp: rfold_append rbind_Inr_iff)
  note IH = snoc.IH [OF k(1)]
  from k(2) obtain tin tout st where st: "i = Suc k" "check_envelope e (int k + 1) sid = None"
    "add_checked (ev_seq e) (ss_usage_in_total (tl_session mid)) (ev_usage_in e) = Inr tin"
    "add_checked (ev_seq e) (ss_usage_out_total (tl_session mid)) (ev_usage_out e) = Inr tout"
    "ss_usage_in_total st = tin" "ss_usage_out_total st = tout"
    "out = page_event from_seq n e (mid\<lparr>tl_session := st\<rparr>)"
    by (rule tail_step_Inr)
  have "paged from_seq n es (mid\<lparr>tl_session := st\<rparr>)" using IH by (simp add: paged_def)
  then have "paged from_seq n (es @ [e]) out" unfolding st(7) using assms(2) by (rule page_event_paged)
  moreover have "summed (es @ [e]) out"
    using IH st add_checked_Inr [OF st(3)] add_checked_Inr [OF st(4)]
    by (simp add: summed_def usage_sum_def)
  ultimately show ?case using IH st(1) check_envelope_seq [OF st(2)] by simp
qed

section \<open>Properties\<close>

text \<open>
  C32. A successful tail projection is exact: the log it accepts is numbered from one without a gap
  and belongs to the session, the page holds the envelopes of the first events after the given
  number, in order and up to the limit, it announces more exactly when events were left out, the
  next number is that of the last event of the page, so that the next call continues without
  repeating or skipping an event, and the usage totals are the mathematical sums, never wrapped.
\<close>

theorem tail_projection_exact:
  assumes "project_session events session_id from_seq limit = Inr out"
  shows "map ev_seq events = map int [1..<Suc (length events)] \<and> (\<forall>e\<in>set events. ev_trace_id e = session_id) \<and>
    (let n = (if limit \<le> 0 then max_tail_events else nat limit) in
       tl_events out = map envelope_of (take n (after from_seq events)) \<and>
       (tl_more out \<longleftrightarrow> n < length (after from_seq events)) \<and>
       tl_next_from_seq out = (if tl_events out = [] then from_seq else le_seq (last (tl_events out)))) \<and>
    sint (ss_usage_in_total (tl_session out)) = usage_sum ev_usage_in events \<and>
    sint (ss_usage_out_total (tl_session out)) = usage_sum ev_usage_out events"
proof -
  let ?n = "if limit \<le> 0 then max_tail_events else nat limit"
  obtain i where i: "rfold (tail_step session_id from_seq ?n) (0, tail_start session_id from_seq) events = Inr (i, out)"
    using assms by (auto simp: project_session_def Let_def rbind_Inr_iff split: if_split_asm)
  have "0 < ?n" by (simp add: max_tail_events_def)
  from tail_fold [OF i this] show ?thesis by (simp add: paged_def summed_def)
qed

definition sample_tail_log :: "event list" where
  "sample_tail_log =
     [\<lparr> ev_seq = 1, ev_ts = 5, ev_trace_id = ''t'', ev_span_id = ''s'', ev_parent_span_id = None,
        ev_kind = kind_user_message, ev_actor = ''parent'', ev_payload = ''{}'', ev_raw = None,
        ev_usage_in = Some 3, ev_usage_out = None \<rparr>,
      \<lparr> ev_seq = 2, ev_ts = 6, ev_trace_id = ''t'', ev_span_id = ''s'', ev_parent_span_id = None,
        ev_kind = kind_session_end, ev_actor = ''parent'', ev_payload = ''{}'', ev_raw = None,
        ev_usage_in = Some 4, ev_usage_out = None \<rparr>]"

lemma sample_tail: "\<exists>out. project_session sample_tail_log ''t'' 0 1 = Inr out"
  by (simp add: project_session_def sample_tail_log_def tail_step_def tail_start_def check_envelope_def add_checked_def
      add_usage_eq max_int64_def status_kind_def kind_defs rmap_error_def)

theorem tail_projection_exact_witness:
  "\<exists>out. project_session sample_tail_log ''t'' 0 1 = Inr out \<and> tl_more out \<and> tl_next_from_seq out = 1 \<and>
     sint (ss_usage_in_total (tl_session out)) = 7"
proof -
  obtain out where out: "project_session sample_tail_log ''t'' 0 1 = Inr out" using sample_tail by blast
  from tail_projection_exact [OF this] have "tl_more out \<and> tl_next_from_seq out = 1 \<and>
      sint (ss_usage_in_total (tl_session out)) = 7"
    by (simp add: sample_tail_log_def after_def usage_sum_def envelope_of_def)
  with out show ?thesis by blast
qed

end
