(* ===== verification/Relay_Server.thy ===== *)
theory Relay_Server
  imports Relay_Session
begin

text \<open>
  The approval relay's server (\<open>seams/approvalrelay/server.go\<close>, \<open>relay.go\<close>): the index of
  decisions, waiting callers, stop receipts and the requests on its socket. The code between a lock
  and its release is one operation; a waiting call is two, because it registers under the lock and
  later returns by one of the ready cases of a \<open>select\<close>, which Go chooses at random. The channels
  have capacity one, and a second wait for a key replaces the channel of the first.
\<close>

section \<open>Messages and state\<close>

record relay_message =
  rm_op :: string
  rm_trace_id :: string
  rm_span_id :: string
  rm_request_id :: string
  rm_response_id :: string
  rm_decision :: string
  rm_reason :: string
  rm_stop_id :: string
  rm_evidence_seq :: int
  rm_session_id :: string
  rm_text :: string
  rm_from_seq :: int

record pending_meta =
  pm_request_digest :: string
  pm_policy_hash :: string
  pm_display_summary :: string
  pm_expires_at :: int

text \<open>
  A handler answers a text with the number it recorded and an error, if any. \<open>sc_events\<close> is absent
  when no event source is set and gives \<open>None\<close> when reading fails.
\<close>

datatype handler_error = HNotMultiturn | HSessionTerminal | HOther

record session_control =
  sc_session_id :: string
  sc_multiturn :: bool
  sc_events :: "(unit \<Rightarrow> event list option) option"

record relay_server =
  sv_pending :: "request_key \<rightharpoonup> nat"
  sv_decided :: "request_key \<rightharpoonup> relay_result"
  sv_by_id :: "string \<rightharpoonup> request_key"
  sv_meta :: "request_key \<rightharpoonup> pending_meta"
  sv_channels :: "nat \<rightharpoonup> relay_result"
  sv_next :: nat
  sv_budget_exceeded :: "bool option"
  sv_evidence_valid :: "(int \<Rightarrow> bool) option"
  sv_stops :: "(string \<times> string) \<rightharpoonup> relay_result"
  sv_terminal_ref :: int
  sv_session :: session_control
  sv_message_handler :: "(string \<Rightarrow> int \<times> handler_error option) option"

definition new_server :: relay_server where
  "new_server =
     \<lparr> sv_pending = Map.empty, sv_decided = Map.empty, sv_by_id = Map.empty, sv_meta = Map.empty,
       sv_channels = Map.empty, sv_next = 0, sv_budget_exceeded = None, sv_evidence_valid = None,
       sv_stops = Map.empty, sv_terminal_ref = 0,
       sv_session = \<lparr> sc_session_id = [], sc_multiturn = False, sc_events = None \<rparr>, sv_message_handler = None \<rparr>"

definition error_result :: "string \<Rightarrow> relay_result" where
  "error_result reason = no_result\<lparr>rs_status := ''error'', rs_reason := reason\<rparr>"

section \<open>Stopping\<close>

text \<open>The receipt, whether the stop callback is due, and the server.\<close>

definition handle_stop :: "relay_message \<Rightarrow> relay_server \<Rightarrow> relay_result \<times> bool \<times> relay_server" where
  "handle_stop m s =
     (let k = (rm_trace_id m, rm_stop_id m) in
      if rm_trace_id m = [] \<or> rm_stop_id m = [] \<or> (rm_op m = ''stop'' \<and> trim_space (rm_reason m) = [])
        then (error_result ''REQUEST_MISMATCH'', False, s)
      else if rm_op m = ''stop_query'' then
        (case sv_stops s k of
           Some r \<Rightarrow> (r, False, s)
         | None \<Rightarrow> (no_result\<lparr>rs_status := ''unknown'', rs_stop_id := rm_stop_id m\<rparr>, False, s))
      else (case sv_stops s k of
              Some old \<Rightarrow>
                if rs_reason old \<noteq> rm_reason m then (error_result ''STOP_CONFLICT'', False, s) else (old, False, s)
            | None \<Rightarrow>
                if rm_reason m = ''parent_done'' \<or>
                   (rm_reason m = ''budget_exceeded'' \<and> sv_budget_exceeded s \<noteq> Some True) \<or>
                   (rm_reason m = ''policy'' \<and>
                    (case sv_evidence_valid s of None \<Rightarrow> True | Some f \<Rightarrow> \<not> f (rm_evidence_seq m)))
                  then (error_result ''UNAUTHORIZED'', False, s)
                else if sv_terminal_ref s \<noteq> 0 then
                  (let r = no_result\<lparr>rs_status := ''already_terminal'', rs_stop_id := rm_stop_id m,
                                    rs_terminal_ref := sv_terminal_ref s\<rparr> in
                   (r, False, s\<lparr>sv_stops := (sv_stops s)(k \<mapsto> r)\<rparr>))
                else
                  (let r = no_result\<lparr>rs_status := ''stop_accepted'', rs_stop_id := rm_stop_id m,
                                    rs_reason := rm_reason m\<rparr> in
                   (r, True, s\<lparr>sv_stops := (sv_stops s)(k \<mapsto> r)\<rparr>))))"

section \<open>Session operations\<close>

definition handle_send_message :: "relay_message \<Rightarrow> relay_server \<Rightarrow> relay_result" where
  "handle_send_message m s =
     (let ctl = sv_session s in
      if rm_session_id m = [] \<or> trim_space (rm_text m) = [] then error_result ''REQUEST_MISMATCH''
      else if sc_session_id ctl = [] \<or> rm_session_id m \<noteq> sc_session_id ctl then error_result ''UNKNOWN_SESSION''
      else if \<not> sc_multiturn ctl then error_result ''NOT_MULTITURN''
      else if sv_terminal_ref s \<noteq> 0 then (error_result ''SESSION_TERMINAL'')\<lparr>rs_terminal_ref := sv_terminal_ref s\<rparr>
      else (case sv_message_handler s of
              None \<Rightarrow> error_result ''SESSION_NOT_READY''
            | Some handler \<Rightarrow>
                (case handler (rm_text m) of
                   (seq, None) \<Rightarrow> no_result\<lparr>rs_status := ''message_accepted'', rs_message_seq := seq\<rparr>
                 | (seq, Some HNotMultiturn) \<Rightarrow> error_result ''NOT_MULTITURN''
                 | (seq, Some HSessionTerminal) \<Rightarrow> error_result ''SESSION_TERMINAL''
                 | (seq, Some HOther) \<Rightarrow>
                     if seq > 0 then (error_result ''DELIVERY_FAILED'')\<lparr>rs_message_seq := seq\<rparr>
                     else error_result ''LOG_UNAVAILABLE'')))"

definition tail_fail :: "string \<Rightarrow> tail_result" where
  "tail_fail reason =
     \<lparr> tl_status = ''error'', tl_reason = reason, tl_session_id = [], tl_events = [], tl_next_from_seq = 0,
       tl_more = False,
       tl_session = \<lparr> ss_state = [], ss_done_status = [], ss_terminal_seq = 0, ss_session_mode = [],
         ss_last_seq = 0, ss_last_activity_ts = 0, ss_usage_in_total = 0, ss_usage_out_total = 0 \<rparr> \<rparr>"

definition handle_events_tail :: "relay_message \<Rightarrow> relay_server \<Rightarrow> tail_result" where
  "handle_events_tail m s =
     (let ctl = sv_session s in
      if rm_session_id m = [] \<or> rm_from_seq m < 0 then tail_fail ''REQUEST_MISMATCH''
      else if sc_session_id ctl = [] \<or> rm_session_id m \<noteq> sc_session_id ctl then tail_fail ''UNKNOWN_SESSION''
      else (case sc_events ctl of
              None \<Rightarrow> tail_fail ''LOG_UNAVAILABLE''
            | Some source \<Rightarrow>
                (case source () of
                   None \<Rightarrow> tail_fail ''LOG_UNAVAILABLE''
                 | Some events \<Rightarrow>
                     (case project_session events (sc_session_id ctl) (rm_from_seq m) (int max_tail_events) of
                        Inl _ \<Rightarrow> tail_fail ''LOG_INVALID''
                      | Inr r \<Rightarrow> r))))"

section \<open>Queries, submissions and waiting\<close>

definition message_key :: "relay_message \<Rightarrow> request_key" where
  "message_key m = RequestKey (rm_trace_id m) (rm_span_id m) (rm_request_id m)"

definition handle_query :: "relay_message \<Rightarrow> relay_server \<Rightarrow> relay_result" where
  "handle_query m s =
     (case sv_decided s (message_key m) of
        Some r \<Rightarrow> r
      | None \<Rightarrow>
          (case sv_pending s (message_key m) of
             None \<Rightarrow> no_result\<lparr>rs_status := ''unknown''\<rparr>
           | Some _ \<Rightarrow>
               (case sv_meta s (message_key m) of
                  None \<Rightarrow> no_result\<lparr>rs_status := ''pending''\<rparr>
                | Some p \<Rightarrow>
                    no_result\<lparr>rs_status := ''pending'', rs_request_digest := pm_request_digest p,
                      rs_policy_hash := pm_policy_hash p, rs_display_summary := pm_display_summary p,
                      rs_expires_at := pm_expires_at p\<rparr>)))"

definition decide :: "request_key \<Rightarrow> relay_result \<Rightarrow> relay_server \<Rightarrow> relay_server" where
  "decide k r s =
     (let s = s\<lparr>sv_decided := (sv_decided s)(k \<mapsto> r)\<rparr> in
      case sv_pending s k of
        None \<Rightarrow> s
      | Some c \<Rightarrow> s\<lparr>sv_channels := (sv_channels s)(c \<mapsto> r), sv_pending := (sv_pending s)(k := None)\<rparr>)"

definition handle_submit :: "relay_message \<Rightarrow> relay_server \<Rightarrow> relay_result \<times> relay_server" where
  "handle_submit m s =
     (if rm_op m \<noteq> ''submit'' \<or> (rm_decision m \<noteq> ''allow'' \<and> rm_decision m \<noteq> ''deny'')
      then (error_result ''REQUEST_MISMATCH'', s)
      else (case sv_decided s (message_key m) of
              Some old \<Rightarrow>
                (if rs_status old = ''expired'' then old
                 else if rs_response_id old \<noteq> rm_response_id m \<or> rs_decision old \<noteq> rm_decision m \<or>
                         rs_reason old \<noteq> rm_reason m then error_result ''RESPONSE_CONFLICT''
                 else old, s)
            | None \<Rightarrow>
                if rm_decision m = ''deny'' \<and> trim_space (rm_reason m) = []
                then (error_result ''REQUEST_MISMATCH'', s)
                else (let r = no_result\<lparr>rs_status := ''decided'', rs_decision := rm_decision m,
                                        rs_reason := rm_reason m, rs_response_id := rm_response_id m\<rparr> in
                      (r, decide (message_key m) r s))))"

datatype reply = Reply relay_result | Tail tail_result

definition serve_message :: "relay_message \<Rightarrow> relay_server \<Rightarrow> reply \<times> relay_server" where
  "serve_message m s =
     (if rm_op m = ''stop'' \<or> rm_op m = ''stop_query'' then
        (let (r, _, s') = handle_stop m s in (Reply r, s'))
      else if rm_op m = ''send_message'' then (Reply (handle_send_message m s), s)
      else if rm_op m = ''events_tail'' then (Tail (handle_events_tail m s), s)
      else if rm_request_id m = [] \<or> rm_trace_id m = [] \<or> rm_span_id m = []
        then (Reply (error_result ''UNAUTHENTICATED''), s)
      else if rm_op m = ''query'' then (Reply (handle_query m s), s)
      else (let (r, s') = handle_submit m s in (Reply r, s')))"

text \<open>A connection: the slot of the semaphore, the peer's user and the decoded message come first.\<close>

definition serve_connection ::
    "bool \<Rightarrow> int \<Rightarrow> int option \<Rightarrow> relay_message option \<Rightarrow> relay_server \<Rightarrow> reply \<times> relay_server" where
  "serve_connection slot owner peer msg s =
     (if \<not> slot then (Reply (error_result ''UNAVAILABLE''), s)
      else if peer \<noteq> Some owner then (Reply (error_result ''UNAUTHENTICATED''), s)
      else (case msg of
              None \<Rightarrow> (Reply (error_result ''REQUEST_MISMATCH''), s)
            | Some m \<Rightarrow> serve_message m s))"

text \<open>A wait returns at once with a decision, or registers a new channel.\<close>

definition wait_begin ::
    "request_key \<Rightarrow> pending_meta \<Rightarrow> relay_server \<Rightarrow> (relay_result + nat) \<times> relay_server" where
  "wait_begin k meta s =
     (case sv_decided s k of
        Some r \<Rightarrow> (Inl r, s)
      | None \<Rightarrow>
          (Inr (sv_next s),
           s\<lparr>sv_pending := (sv_pending s)(k \<mapsto> sv_next s), sv_by_id := (sv_by_id s)(key_request k \<mapsto> k),
             sv_meta := (sv_meta s)(k \<mapsto> meta), sv_next := Suc (sv_next s)\<rparr>))"

definition wait_expire :: "request_key \<Rightarrow> string \<Rightarrow> relay_server \<Rightarrow> relay_result \<times> relay_server" where
  "wait_expire k reason s =
     (let r = no_result\<lparr>rs_status := ''expired'', rs_decision := ''deny'', rs_reason := reason\<rparr> in
      (r, s\<lparr>sv_pending := (sv_pending s)(k := None), sv_decided := (sv_decided s)(k \<mapsto> r)\<rparr>))"

definition record_approval_result :: "string \<Rightarrow> bool \<Rightarrow> string \<Rightarrow> int \<Rightarrow> relay_server \<Rightarrow> relay_server" where
  "record_approval_result request_id allow reason seq s =
     (case sv_by_id s request_id of
        None \<Rightarrow> s
      | Some k \<Rightarrow>
          (let r = (case sv_decided s k of None \<Rightarrow> no_result | Some r \<Rightarrow> r);
               r = (if rs_status r \<noteq> ''expired''
                    then r\<lparr>rs_status := ''decided'', rs_decision := (if allow then ''allow'' else ''deny''),
                           rs_reason := reason\<rparr> else r) in
           s\<lparr>sv_decided := (sv_decided s)(k \<mapsto> r\<lparr>rs_response_seq := seq\<rparr>)\<rparr>))"

definition restore :: "event list \<Rightarrow> relay_server \<Rightarrow> relay_server" where
  "restore events s = s\<lparr>sv_decided := sv_decided s ++ rebuild events\<rparr>"

definition mark_terminal :: "int \<Rightarrow> relay_server \<Rightarrow> relay_server" where
  "mark_terminal ref s = s\<lparr>sv_terminal_ref := ref\<rparr>"

definition set_session :: "session_control \<Rightarrow> relay_server \<Rightarrow> relay_server" where
  "set_session ctl s = s\<lparr>sv_session := ctl\<rparr>"

definition set_message_handler ::
    "(string \<Rightarrow> int \<times> handler_error option) option \<Rightarrow> relay_server \<Rightarrow> relay_server" where
  "set_message_handler handler s = s\<lparr>sv_message_handler := handler\<rparr>"

definition set_stop_handler :: "bool option \<Rightarrow> (int \<Rightarrow> bool) option \<Rightarrow> relay_server \<Rightarrow> relay_server" where
  "set_stop_handler budget evidence s = s\<lparr>sv_budget_exceeded := budget, sv_evidence_valid := evidence\<rparr>"

text \<open>\<open>Decide\<close> reads the outcome of a wait; arguments that are not canonical are refused before it.\<close>

record approval_outcome =
  ao_allow :: bool
  ao_reason :: string
  ao_source :: string
  ao_actor_ref :: string
  ao_response_id :: string

definition relay_decide :: "bool \<Rightarrow> relay_result \<Rightarrow> approval_outcome" where
  "relay_decide canonical res =
     (if \<not> canonical then
        \<lparr> ao_allow = False, ao_reason = ''forced: invalid approval args'', ao_source = ''forced'',
          ao_actor_ref = [], ao_response_id = [] \<rparr>
      else
        \<lparr> ao_allow = (rs_decision res = ''allow''), ao_reason = rs_reason res,
          ao_source = (if rs_status res = ''expired'' then ''forced'' else ''relay''),
          ao_actor_ref = (if rs_status res = ''expired'' then [] else ''unverified-local-operator''),
          ao_response_id = rs_response_id res \<rparr>)"

section \<open>Runs\<close>

text \<open>
  A run interleaves the operations. Its history lists what was served, returned to waiting callers,
  recorded and restored; \<open>W\<close> holds the callers that wait, by their channel.
\<close>

datatype relay_label =
    Served relay_message reply | Returned request_key relay_result | Recorded string bool | Restored "event list"

definition fresh_server :: "relay_server \<Rightarrow> bool" where
  "fresh_server s \<longleftrightarrow> sv_pending s = Map.empty \<and> sv_decided s = Map.empty \<and> sv_by_id s = Map.empty \<and>
     sv_channels s = Map.empty"

inductive relay_run :: "relay_label list \<Rightarrow> (nat \<rightharpoonup> request_key) \<Rightarrow> relay_server \<Rightarrow> bool" where
  start: "fresh_server s \<Longrightarrow> relay_run [] Map.empty s"
| served: "relay_run h W s \<Longrightarrow> serve_message m s = (r, s') \<Longrightarrow> relay_run (h @ [Served m r]) W s'"
| decided: "relay_run h W s \<Longrightarrow> wait_begin k meta s = (Inl r, s') \<Longrightarrow> relay_run (h @ [Returned k r]) W s'"
| waiting: "relay_run h W s \<Longrightarrow> wait_begin k meta s = (Inr c, s') \<Longrightarrow> relay_run h (W(c \<mapsto> k)) s'"
| received: "relay_run h W s \<Longrightarrow> W c = Some k \<Longrightarrow> sv_channels s c = Some r \<Longrightarrow>
    relay_run (h @ [Returned k r]) (W(c := None)) (s\<lparr>sv_channels := (sv_channels s)(c := None)\<rparr>)"
| expired: "relay_run h W s \<Longrightarrow> W c = Some k \<Longrightarrow> reason = ''EXPIRED'' \<or> reason = ''LEASE_ENDED'' \<Longrightarrow>
    wait_expire k reason s = (r, s') \<Longrightarrow> relay_run (h @ [Returned k r]) (W(c := None)) s'"
| recorded: "relay_run h W s \<Longrightarrow>
    relay_run (h @ [Recorded q allow]) W (record_approval_result q allow reason seq s)"
| restored: "relay_run h W s \<Longrightarrow> relay_run (h @ [Restored es]) W (restore es s)"
| terminal: "relay_run h W s \<Longrightarrow> relay_run h W (mark_terminal ref s)"
| session: "relay_run h W s \<Longrightarrow> relay_run h W (set_session ctl s)"
| handler: "relay_run h W s \<Longrightarrow> relay_run h W (set_message_handler f s)"
| stopper: "relay_run h W s \<Longrightarrow> relay_run h W (set_stop_handler b v s)"

text \<open>Where an \<open>allow\<close> for a request can come from.\<close>

definition granted :: "relay_label list \<Rightarrow> request_key \<Rightarrow> bool" where
  "granted h k \<longleftrightarrow>
     (\<exists>m r. Served m r \<in> set h \<and> rm_op m = ''submit'' \<and> rm_decision m = ''allow'' \<and> message_key m = k) \<or>
     Recorded (key_request k) True \<in> set h \<or>
     (\<exists>es r. Restored es \<in> set h \<and> rebuild es k = Some r \<and> rs_decision r = ''allow'')"

lemma granted_append: "granted h k \<Longrightarrow> granted (h @ h') k"
  unfolding granted_def by auto

definition relay_inv :: "relay_label list \<Rightarrow> (nat \<rightharpoonup> request_key) \<Rightarrow> relay_server \<Rightarrow> bool" where
  "relay_inv h W s \<longleftrightarrow>
     (\<forall>k r. sv_decided s k = Some r \<longrightarrow> rs_decision r = ''allow'' \<longrightarrow> granted h k) \<and>
     (\<forall>c k r. W c = Some k \<longrightarrow> sv_channels s c = Some r \<longrightarrow> rs_decision r = ''allow'' \<longrightarrow> granted h k) \<and>
     (\<forall>k c. sv_pending s k = Some c \<longrightarrow> c < sv_next s \<and> (\<forall>k'. W c = Some k' \<longrightarrow> k' = k)) \<and>
     (\<forall>c. c \<in> dom W \<union> dom (sv_channels s) \<longrightarrow> c < sv_next s) \<and>
     (\<forall>q k. sv_by_id s q = Some k \<longrightarrow> key_request k = q) \<and>
     (\<forall>k r. Returned k r \<in> set h \<longrightarrow> rs_decision r = ''allow'' \<longrightarrow> granted h k)"

lemma relay_invI:
  assumes "\<And>k r. sv_decided s k = Some r \<Longrightarrow> rs_decision r = ''allow'' \<Longrightarrow> granted h k"
    "\<And>c k r. W c = Some k \<Longrightarrow> sv_channels s c = Some r \<Longrightarrow> rs_decision r = ''allow'' \<Longrightarrow> granted h k"
    "\<And>k c. sv_pending s k = Some c \<Longrightarrow> c < sv_next s \<and> (\<forall>k'. W c = Some k' \<longrightarrow> k' = k)"
    "\<And>c. c \<in> dom W \<union> dom (sv_channels s) \<Longrightarrow> c < sv_next s"
    "\<And>q k. sv_by_id s q = Some k \<Longrightarrow> key_request k = q"
    "\<And>k r. Returned k r \<in> set h \<Longrightarrow> rs_decision r = ''allow'' \<Longrightarrow> granted h k"
  shows "relay_inv h W s"
  using assms unfolding relay_inv_def by blast

lemma relay_invD:
  assumes "relay_inv h W s"
  shows "sv_decided s k = Some r \<Longrightarrow> rs_decision r = ''allow'' \<Longrightarrow> granted h k"
    "W c = Some k \<Longrightarrow> sv_channels s c = Some r \<Longrightarrow> rs_decision r = ''allow'' \<Longrightarrow> granted h k"
    "sv_pending s k = Some c \<Longrightarrow> c < sv_next s \<and> (\<forall>k'. W c = Some k' \<longrightarrow> k' = k)"
    "c \<in> dom W \<union> dom (sv_channels s) \<Longrightarrow> c < sv_next s"
    "sv_by_id s q = Some k \<Longrightarrow> key_request k = q"
    "Returned k r \<in> set h \<Longrightarrow> rs_decision r = ''allow'' \<Longrightarrow> granted h k"
  using assms unfolding relay_inv_def by blast+

lemma relay_inv_append:
  assumes "relay_inv h W s" "\<And>k r. l = Returned k r \<Longrightarrow> rs_decision r = ''allow'' \<Longrightarrow> granted h k"
  shows "relay_inv (h @ [l]) W s"
proof (rule relay_invI, goal_cases)
  case (6 k r)
  then show ?case using assms(2) relay_invD(6) [OF assms(1)] granted_append by auto
qed (use relay_invD [OF assms(1)] granted_append in blast)+

text \<open>Only the indices of decisions, waits and channels matter to the invariant.\<close>

lemma relay_inv_cong:
  "relay_inv h W s \<Longrightarrow> sv_decided s' = sv_decided s \<Longrightarrow> sv_channels s' = sv_channels s \<Longrightarrow>
   sv_pending s' = sv_pending s \<Longrightarrow> sv_next s' = sv_next s \<Longrightarrow> sv_by_id s' = sv_by_id s \<Longrightarrow> relay_inv h W s'"
  by (simp add: relay_inv_def)

lemma decided_inv:
  assumes "relay_inv h W s" "\<And>k r. dec k = Some r \<Longrightarrow> rs_decision r = ''allow'' \<Longrightarrow> granted h k"
  shows "relay_inv h W (s\<lparr>sv_decided := dec\<rparr>)"
  using assms unfolding relay_inv_def by simp

lemma settle_inv:
  assumes "relay_inv h W s" "sv_pending s k = Some c" "rs_decision r = ''allow'' \<Longrightarrow> granted h k"
  shows "relay_inv h W (s\<lparr>sv_channels := (sv_channels s)(c \<mapsto> r), sv_pending := (sv_pending s)(k := None)\<rparr>)"
proof (rule relay_invI, goal_cases)
  case (2 c' k' r')
  show ?case
  proof (cases "c' = c")
    case True
    with 2 assms(3) relay_invD(3) [OF assms(1,2)] show ?thesis by simp
  next
    case False
    with 2 relay_invD(2) [OF assms(1)] show ?thesis by simp
  qed
next
  case (3 k' c')
  then show ?case using relay_invD(3) [OF assms(1), of k' c'] by (simp split: if_split_asm)
next
  case (4 c')
  then show ?case using relay_invD(4) [OF assms(1), of c'] relay_invD(3) [OF assms(1,2)] by auto
qed (use relay_invD [OF assms(1)] in simp_all)

lemma decide_inv:
  assumes "relay_inv h W s" "rs_decision r = ''allow'' \<Longrightarrow> granted h k"
  shows "relay_inv h W (decide k r s)"
proof -
  let ?s = "s\<lparr>sv_decided := (sv_decided s)(k \<mapsto> r)\<rparr>"
  have inv: "relay_inv h W ?s"
    by (rule decided_inv [OF assms(1)]) (use relay_invD(1) [OF assms(1)] assms(2) in \<open>simp split: if_split_asm\<close>)
  show ?thesis
  proof (cases "sv_pending s k")
    case None
    with inv show ?thesis by (simp add: decide_def)
  next
    case (Some c)
    then have "sv_pending ?s k = Some c" by simp
    from settle_inv [OF inv this assms(2)] Some show ?thesis by (simp add: decide_def)
  qed
qed

lemma handle_submit_inv:
  assumes "handle_submit m s = (r, s')" "relay_inv h W s"
    "rm_op m = ''submit'' \<Longrightarrow> rm_decision m = ''allow'' \<Longrightarrow> granted h (message_key m)"
  shows "relay_inv h W s'"
proof (cases "s' = s")
  case False
  then have "s' = decide (message_key m) r s" "rm_op m = ''submit''" "rs_decision r = rm_decision m"
    using assms(1) by (auto simp: handle_submit_def Let_def split: if_splits option.splits)
  with decide_inv [OF assms(2), of r "message_key m"] assms(3) show ?thesis by simp
qed (use assms(2) in simp)

lemma handle_stop_inv:
  "handle_stop m s = (r, b, s') \<Longrightarrow> relay_inv h W s \<Longrightarrow> relay_inv h W s'"
  by (auto simp: handle_stop_def Let_def split: if_splits option.splits elim: relay_inv_cong)

lemma serve_message_inv:
  assumes "serve_message m s = (r, s')" "relay_inv h W s"
    "rm_op m = ''submit'' \<Longrightarrow> rm_decision m = ''allow'' \<Longrightarrow> granted h (message_key m)"
  shows "relay_inv h W s'"
proof -
  consider "s' = s" | r' b where "handle_stop m s = (r', b, s')" | r' where "handle_submit m s = (r', s')"
    using assms(1) by (auto simp: serve_message_def split: if_splits prod.splits)
  then show ?thesis
    using assms(2,3) handle_stop_inv handle_submit_inv by cases blast+
qed

lemma wait_begin_Inr_inv:
  assumes "wait_begin k meta s = (Inr c, s')" "relay_inv h W s"
  shows "relay_inv h (W(c \<mapsto> k)) s'"
proof -
  from assms(1) have c: "c = sv_next s"
    and s': "s' = s\<lparr>sv_pending := (sv_pending s)(k \<mapsto> sv_next s), sv_by_id := (sv_by_id s)(key_request k \<mapsto> k),
             sv_meta := (sv_meta s)(k \<mapsto> meta), sv_next := Suc (sv_next s)\<rparr>"
    by (auto simp: wait_begin_def split: option.splits)
  have fresh: "sv_channels s c = None" "W c = None"
    using relay_invD(4) [OF assms(2), of c] c by (metis UnCI domIff less_irrefl)+
  show ?thesis
  proof (rule relay_invI, goal_cases)
    case (2 c' k' r)
    then show ?case using fresh relay_invD(2) [OF assms(2)] by (simp add: s' split: if_split_asm)
  next
    case (3 k' c')
    then show ?case using relay_invD(3) [OF assms(2), of k' c'] by (auto simp: s' c split: if_split_asm)
  next
    case (4 c')
    then show ?case
      using relay_invD(4) [OF assms(2), of c'] by (cases "c' = sv_next s") (simp_all add: s' c less_SucI)
  next
    case (5 q k')
    then show ?case using relay_invD(5) [OF assms(2)] by (simp add: s' split: if_split_asm)
  qed (use relay_invD [OF assms(2)] in \<open>simp_all add: s'\<close>)
qed

lemma relay_inv_leave: "relay_inv h W s \<Longrightarrow> relay_inv h (W(c := None)) s"
  unfolding relay_inv_def by (simp add: domIff)

lemma relay_inv_drain: "relay_inv h W s \<Longrightarrow> relay_inv h W (s\<lparr>sv_channels := (sv_channels s)(c := None)\<rparr>)"
  unfolding relay_inv_def by (simp add: domIff)

lemma wait_expire_inv:
  assumes "wait_expire k reason s = (r, s')" "relay_inv h W s"
  shows "relay_inv h W s'" "rs_decision r = ''deny''"
proof -
  have r: "r = no_result\<lparr>rs_status := ''expired'', rs_decision := ''deny'', rs_reason := reason\<rparr>"
    and s': "s' = s\<lparr>sv_pending := (sv_pending s)(k := None), sv_decided := (sv_decided s)(k \<mapsto> r)\<rparr>"
    using assms(1) by (auto simp: wait_expire_def Let_def)
  show "rs_decision r = ''deny''" by (simp add: r)
  then show "relay_inv h W s'"
    using assms(2) unfolding relay_inv_def s' by simp
qed

lemma record_inv:
  assumes "relay_inv h W s" "allow \<Longrightarrow> Recorded q True \<in> set h"
  shows "relay_inv h W (record_approval_result q allow reason seq s)"
proof (cases "sv_by_id s q")
  case None
  with assms(1) show ?thesis by (simp add: record_approval_result_def)
next
  case (Some k)
  let ?r = "case sv_decided s k of None \<Rightarrow> no_result | Some r \<Rightarrow> r"
  let ?r' = "if rs_status ?r \<noteq> ''expired''
     then ?r\<lparr>rs_status := ''decided'', rs_decision := (if allow then ''allow'' else ''deny''), rs_reason := reason\<rparr> else ?r"
  have "granted h k" if "rs_decision ?r' = ''allow''"
  proof (cases "rs_status ?r = ''expired''")
    case True
    with that relay_invD(1) [OF assms(1)] show ?thesis by (auto simp: no_result_def split: option.splits)
  next
    case False
    with that have allow by (simp split: if_split_asm)
    with assms(2) relay_invD(5) [OF assms(1) Some] show ?thesis unfolding granted_def by blast
  qed
  then have "relay_inv h W (s\<lparr>sv_decided := (sv_decided s)(k \<mapsto> ?r'\<lparr>rs_response_seq := seq\<rparr>)\<rparr>)"
    by (intro decided_inv [OF assms(1)]) (use relay_invD(1) [OF assms(1)] in \<open>auto split: if_split_asm\<close>)
  then show ?thesis by (simp add: record_approval_result_def Some Let_def)
qed

lemma restore_inv:
  assumes "relay_inv h W s" "Restored es \<in> set h"
  shows "relay_inv h W (restore es s)"
  unfolding restore_def
proof (rule decided_inv [OF assms(1)])
  fix k r
  assume "(sv_decided s ++ rebuild es) k = Some r" and a: "rs_decision r = ''allow''"
  then consider "rebuild es k = Some r" | "sv_decided s k = Some r" by (auto simp: map_add_Some_iff)
  then show "granted h k"
    using a assms(2) relay_invD(1) [OF assms(1)] by cases (unfold granted_def, blast+)
qed

lemma relay_run_inv: "relay_run h W s \<Longrightarrow> relay_inv h W s"
proof (induction rule: relay_run.induct)
  case (start s)
  then show ?case by (simp add: relay_inv_def fresh_server_def)
next
  case (served h W s m r s')
  have "relay_inv (h @ [Served m r]) W s" by (rule relay_inv_append [OF served.IH]) simp
  then show ?case by (rule serve_message_inv [OF served.hyps(2)]) (auto simp: granted_def)
next
  case (decided h W s k meta r s')
  then have "sv_decided s k = Some r" "s' = s" by (auto simp: wait_begin_def split: option.splits)
  with relay_invD(1) [OF decided.IH] show ?case by (auto intro: relay_inv_append [OF decided.IH])
next
  case (waiting h W s k meta c s')
  then show ?case by (blast intro: wait_begin_Inr_inv)
next
  case (received h W s c k r)
  have "relay_inv (h @ [Returned k r]) W s"
    by (rule relay_inv_append [OF received.IH]) (use relay_invD(2) [OF received.IH received.hyps(2,3)] in simp)
  then show ?case by (intro relay_inv_drain relay_inv_leave)
next
  case (expired h W s c k reason r s')
  note e = wait_expire_inv [OF expired.hyps(4) expired.IH]
  have "relay_inv (h @ [Returned k r]) W s'" by (rule relay_inv_append [OF e(1)]) (use e(2) in simp)
  then show ?case by (rule relay_inv_leave)
next
  case (recorded h W s q allow reason seq)
  have "relay_inv (h @ [Recorded q allow]) W s" by (rule relay_inv_append [OF recorded.IH]) simp
  then show ?case by (rule record_inv) simp
next
  case (restored h W s es)
  have "relay_inv (h @ [Restored es]) W s" by (rule relay_inv_append [OF restored.IH]) simp
  then show ?case by (rule restore_inv) simp
next
  case (terminal h W s ref)
  show ?case by (rule relay_inv_cong [OF terminal.IH]) (simp_all add: mark_terminal_def)
next
  case (session h W s ctl)
  show ?case by (rule relay_inv_cong [OF session.IH]) (simp_all add: set_session_def)
next
  case (handler h W s f)
  show ?case by (rule relay_inv_cong [OF handler.IH]) (simp_all add: set_message_handler_def)
next
  case (stopper h W s b v)
  show ?case by (rule relay_inv_cong [OF stopper.IH]) (simp_all add: set_stop_handler_def)
qed

section \<open>Properties\<close>

definition sample_submit :: relay_message where
  "sample_submit =
     \<lparr> rm_op = ''submit'', rm_trace_id = ''t'', rm_span_id = ''s'', rm_request_id = ''q'', rm_response_id = ''p'',
       rm_decision = ''allow'', rm_reason = ''ok'', rm_stop_id = [], rm_evidence_seq = 0, rm_session_id = [],
       rm_text = [], rm_from_seq = 0 \<rparr>"

definition sample_key :: request_key where
  "sample_key = RequestKey ''t'' ''s'' ''q''"

definition sample_meta :: pending_meta where
  "sample_meta = \<lparr> pm_request_digest = [], pm_policy_hash = [], pm_display_summary = [], pm_expires_at = 0 \<rparr>"

definition sample_answer :: relay_result where
  "sample_answer = no_result\<lparr>rs_status := ''decided'', rs_decision := ''allow'', rs_reason := ''ok'', rs_response_id := ''p''\<rparr>"

lemma sample_decided_run:
  "\<exists>s. relay_run [Served sample_submit (Reply sample_answer)] [0 \<mapsto> sample_key] s \<and>
     sv_channels s 0 = Some sample_answer"
proof -
  let ?s1 = "snd (wait_begin sample_key sample_meta new_server)"
  let ?s2 = "snd (serve_message sample_submit ?s1)"
  have "relay_run [] Map.empty new_server" by (rule relay_run.start) (simp add: fresh_server_def new_server_def)
  then have "relay_run [] [0 \<mapsto> sample_key] ?s1"
    by (rule relay_run.waiting) (simp add: wait_begin_def new_server_def)
  moreover have "serve_message sample_submit ?s1 = (Reply sample_answer, ?s2)" "sv_channels ?s2 0 = Some sample_answer"
    by (simp_all add: serve_message_def handle_submit_def sample_submit_def wait_begin_def new_server_def
        message_key_def decide_def sample_key_def sample_answer_def Let_def)
  ultimately have "relay_run ([] @ [Served sample_submit (Reply sample_answer)]) [0 \<mapsto> sample_key] ?s2 \<and>
      sv_channels ?s2 0 = Some sample_answer" by (intro conjI relay_run.served)
  then show ?thesis by (intro exI) simp
qed

text \<open>
  C33. Whatever the interleaving of submissions, waits, expiries, recorded results and restored logs,
  a waiting caller is told to allow a request only if the history before holds a submission that
  allows that very request, a recorded approval of it, or a restored log whose decision allows it:
  expiry, a cancelled lease, a conflict or a malformed message never grant anything.
\<close>

theorem relay_allows_only_granted:
  assumes "relay_run h W s" "Returned k r \<in> set h" "ao_allow (relay_decide canonical r)"
  shows "granted h k"
  using relay_invD(6) [OF relay_run_inv [OF assms(1)] assms(2)] assms(3)
  by (simp add: relay_decide_def split: if_split_asm)

theorem relay_allows_only_granted_witness:
  "\<exists>h W s. relay_run h W s \<and> Returned sample_key sample_answer \<in> set h \<and> granted h sample_key"
proof -
  obtain s where s: "relay_run [Served sample_submit (Reply sample_answer)] [0 \<mapsto> sample_key] s"
    "sv_channels s 0 = Some sample_answer" using sample_decided_run by blast
  let ?h = "[Served sample_submit (Reply sample_answer)] @ [Returned sample_key sample_answer]"
  have run: "relay_run ?h ([0 \<mapsto> sample_key](0 := None)) (s\<lparr>sv_channels := (sv_channels s)(0 := None)\<rparr>)"
    by (rule relay_run.received [OF s(1) _ s(2)]) simp
  have "ao_allow (relay_decide True sample_answer)" by (simp add: relay_decide_def sample_answer_def)
  then have "granted ?h sample_key" by (intro relay_allows_only_granted [OF run, of _ sample_answer]) simp_all
  moreover have "Returned sample_key sample_answer \<in> set ?h" by simp
  ultimately show ?thesis using run by (intro exI conjI)
qed

text \<open>
  C34. A decision that the server has acknowledged can still be lost: when the timer of the waiting
  call fires before the call takes the decision from its channel, the call returns a denial and
  the index then answers queries with an expiry instead of the acknowledged allow.
\<close>

theorem expiry_overwrites_decision:
  "\<exists>h r r' s. relay_run (h @ [Served sample_submit (Reply r), Returned sample_key r']) Map.empty s \<and>
     rs_status r = ''decided'' \<and> rs_decision r = ''allow'' \<and>
     rs_decision r' = ''deny'' \<and> rs_status (handle_query sample_submit s) = ''expired''"
proof -
  obtain s where s: "relay_run [Served sample_submit (Reply sample_answer)] [0 \<mapsto> sample_key] s"
    using sample_decided_run by blast
  let ?e = "wait_expire sample_key ''EXPIRED'' s"
  have "relay_run ([Served sample_submit (Reply sample_answer)] @ [Returned sample_key (fst ?e)])
      ([0 \<mapsto> sample_key](0 := None)) (snd ?e)"
    by (rule relay_run.expired [OF s]) simp_all
  moreover have "rs_status (handle_query sample_submit (snd ?e)) = ''expired''" "rs_decision (fst ?e) = ''deny''"
    by (simp_all add: wait_expire_def Let_def handle_query_def message_key_def sample_submit_def sample_key_def)
  ultimately have "relay_run ([] @ [Served sample_submit (Reply sample_answer), Returned sample_key (fst ?e)])
      Map.empty (snd ?e) \<and> rs_status sample_answer = ''decided'' \<and> rs_decision sample_answer = ''allow'' \<and>
      rs_decision (fst ?e) = ''deny'' \<and> rs_status (handle_query sample_submit (snd ?e)) = ''expired''"
    by (simp add: sample_answer_def)
  then show ?thesis by blast
qed

text \<open>
  C35. A stop takes effect once: the callback is due only for an accepted receipt of a session that
  is not yet terminal, never for the reason \<open>parent_done\<close>, and repeating the request returns the
  same receipt without a second callback.
\<close>

theorem stop_takes_effect_once:
  assumes "handle_stop m s = (r, True, s')"
  shows "rs_status r = ''stop_accepted'' \<and> sv_terminal_ref s = 0 \<and> rm_reason m \<noteq> ''parent_done'' \<and>
    handle_stop m s' = (r, False, s') \<and> handle_stop (m\<lparr>rm_op := ''stop_query''\<rparr>) s' = (r, False, s')"
proof -
  let ?k = "(rm_trace_id m, rm_stop_id m)"
  have acc: "rm_trace_id m \<noteq> []" "rm_stop_id m \<noteq> []" "\<not> (rm_op m = ''stop'' \<and> trim_space (rm_reason m) = [])"
    "rm_op m \<noteq> ''stop_query''" "rm_reason m \<noteq> ''parent_done''" "sv_terminal_ref s = 0"
    and r: "r = no_result\<lparr>rs_status := ''stop_accepted'', rs_stop_id := rm_stop_id m, rs_reason := rm_reason m\<rparr>"
    and s': "s' = s\<lparr>sv_stops := (sv_stops s)(?k \<mapsto> r)\<rparr>"
    using assms unfolding handle_stop_def Let_def by (simp_all split: if_split_asm option.split_asm) (elim conjE, simp)+
  have "sv_stops s' ?k = Some r" "rs_reason r = rm_reason m" by (simp_all add: s' r)
  then have "handle_stop m s' = (r, False, s')" "handle_stop (m\<lparr>rm_op := ''stop_query''\<rparr>) s' = (r, False, s')"
    using acc unfolding handle_stop_def Let_def by auto
  with acc show ?thesis by (simp add: r)
qed

definition sample_stop :: relay_message where
  "sample_stop = sample_submit\<lparr>rm_op := ''stop'', rm_stop_id := ''x'', rm_reason := ''user''\<rparr>"

lemma sample_stop_accepted: "\<exists>r s'. handle_stop sample_stop new_server = (r, True, s')"
proof -
  have "trim_left space_encodings ''user'' = ''user''"
    by (rule trim_left_id) (auto simp: space_encodings_def ascii_spaces_def)
  moreover have "trim_right space_encodings ''user'' = ''user''"
    by (rule trim_right_id) (auto simp: space_encodings_def ascii_spaces_def suffix_to_prefix)
  ultimately have "trim_space ''user'' = ''user''" by (simp add: trim_space_def)
  then show ?thesis by (simp add: handle_stop_def sample_stop_def sample_submit_def new_server_def Let_def)
qed

theorem stop_takes_effect_once_witness:
  "\<exists>r s'. handle_stop sample_stop new_server = (r, True, s') \<and> handle_stop sample_stop s' = (r, False, s')"
  using sample_stop_accepted stop_takes_effect_once by blast

end
