(* ===== verification/Observe.thy ===== *)
theory Observe
  imports Payloads Net_Addr
begin

text \<open>
  Two host-side projections: the spans exported from a log (\<open>core/observe/observe.go\<close>), where the
  OpenTelemetry decoders of identifiers are the arguments \<open>trace_hex\<close> and \<open>span_hex\<close>, and the
  directory of runtime sockets (\<open>core/runtimedir\<close>), where the file system is an argument.
\<close>

section \<open>Spans\<close>

record span_aggregate =
  sa_trace_id :: string
  sa_span_id :: string
  sa_parent :: string
  sa_start :: int
  sa_end :: int
  sa_spawn :: "spawn_payload option"
  sa_done :: "done_payload option"

datatype attribute = AStr string | AInt i64

record ('t, 's) span_data =
  sd_name :: string
  sd_context :: "'t \<times> 's"
  sd_parent :: "('t \<times> 's) option"
  sd_start :: int
  sd_end :: int
  sd_attributes :: "(string \<times> attribute) list"

datatype observe_error =
    ObserveReplay replay_error | ObserveSpawn int | ObserveDone int | ObserveTraceId | ObserveSpanId | ObserveParent
  | NoProfile string | NoVersion string | NoDone string

definition open_aggregate :: "event \<Rightarrow> span_aggregate" where
  "open_aggregate e =
     \<lparr> sa_trace_id = ev_trace_id e, sa_span_id = ev_span_id e, sa_parent = raw_of (ev_parent_span_id e),
       sa_start = ev_ts e, sa_end = ev_ts e, sa_spawn = None, sa_done = None \<rparr>"

definition widen :: "event \<Rightarrow> span_aggregate \<Rightarrow> span_aggregate" where
  "widen e a =
     (let a = (if ev_ts e < sa_start a then a\<lparr>sa_start := ev_ts e\<rparr> else a) in
      if ev_ts e > sa_end a then a\<lparr>sa_end := ev_ts e\<rparr> else a)"

definition aggregate_payload :: "event \<Rightarrow> span_aggregate \<Rightarrow> (observe_error, span_aggregate) result" where
  "aggregate_payload e a =
     (if ev_kind e = kind_subagent_spawn then
        (case decode_spawn (ev_payload e) of
           None \<Rightarrow> Inl (ObserveSpawn (ev_seq e)) | Some p \<Rightarrow> Inr (a\<lparr>sa_spawn := Some p\<rparr>))
      else if ev_kind e = kind_subagent_done then
        (case decode_done (ev_payload e) of
           None \<Rightarrow> Inl (ObserveDone (ev_seq e)) | Some p \<Rightarrow> Inr (a\<lparr>sa_done := Some p\<rparr>))
      else Inr a)"

definition aggregate_step ::
    "(string \<rightharpoonup> span_aggregate) \<Rightarrow> event \<Rightarrow> (observe_error, string \<rightharpoonup> span_aggregate) result" where
  "aggregate_step m e =
     (let a = (case m (ev_span_id e) of None \<Rightarrow> open_aggregate e | Some a \<Rightarrow> a) in
      rbind (aggregate_payload e (widen e a)) (\<lambda>a. Inr (m(ev_span_id e \<mapsto> a))))"

definition subagent_attributes :: "string \<Rightarrow> string \<Rightarrow> string \<Rightarrow> string \<Rightarrow> token_usage \<Rightarrow> (string \<times> attribute) list" where
  "subagent_attributes adapter version profile status u =
     sort_key fst
       [(''hx.adapter.name'', AStr adapter), (''hx.adapter.version'', AStr version),
        (''hx.profile.id'', AStr profile), (''hx.status'', AStr status),
        (''hx.usage.input_tokens'', AInt (tu_in u)), (''hx.usage.output_tokens'', AInt (tu_out u))]"

definition describe_span ::
    "(string \<Rightarrow> string) \<Rightarrow> derived_state \<Rightarrow> span_aggregate
       \<Rightarrow> (observe_error, string \<times> (string \<times> attribute) list) result" where
  "describe_span versions st a =
     (case sa_spawn a of
        None \<Rightarrow> Inr (''hx.session'', [])
      | Some p \<Rightarrow>
          (case sp_profile_id p of
             None \<Rightarrow> Inl (NoProfile (sa_span_id a))
           | Some profile \<Rightarrow>
               if profile = [] then Inl (NoProfile (sa_span_id a))
               else if versions (sp_adapter p) = [] then Inl (NoVersion (sp_adapter p))
               else (case sa_done a of
                       None \<Rightarrow> Inl (NoDone (sa_span_id a))
                     | Some d \<Rightarrow>
                         Inr (''hx.subagent'',
                           subagent_attributes (sp_adapter p) (versions (sp_adapter p)) profile (dn_status d)
                             (usage_at (ds_by_span st) (sa_span_id a))))))"

definition project_span ::
    "(string \<Rightarrow> 't option) \<Rightarrow> (string \<Rightarrow> 's option) \<Rightarrow> (string \<Rightarrow> string) \<Rightarrow> derived_state \<Rightarrow> span_aggregate
       \<Rightarrow> (observe_error, ('t, 's) span_data) result" where
  "project_span trace_hex span_hex versions st a =
     (case trace_hex (sa_trace_id a) of
        None \<Rightarrow> Inl ObserveTraceId
      | Some t \<Rightarrow>
          (case span_hex (sa_span_id a) of
             None \<Rightarrow> Inl ObserveSpanId
           | Some sp \<Rightarrow>
               rbind (if sa_parent a = [] then Inr None
                      else (case span_hex (sa_parent a) of None \<Rightarrow> Inl ObserveParent | Some q \<Rightarrow> Inr (Some (t, q)))) (\<lambda>parent.
               rbind (describe_span versions st a) (\<lambda>(name, attrs).
               Inr \<lparr> sd_name = name, sd_context = (t, sp), sd_parent = parent, sd_start = sa_start a,
                     sd_end = sa_end a, sd_attributes = attrs \<rparr>))))"

definition project ::
    "(string \<Rightarrow> 't option) \<Rightarrow> (string \<Rightarrow> 's option) \<Rightarrow> (string \<Rightarrow> string) \<Rightarrow> event list
       \<Rightarrow> (observe_error, ('t, 's) span_data list) result" where
  "project trace_hex span_hex versions events =
     rbind (rmap_error ObserveReplay (replay events)) (\<lambda>st.
     rbind (rfold aggregate_step Map.empty events) (\<lambda>m.
     rmap (\<lambda>k. project_span trace_hex span_hex versions st (the (m k)))
       (sort (uniq (map ev_span_id events)))))"

section \<open>The runtime directory\<close>

datatype platform = Darwin | Linux | OtherOS

fun unix_socket_limit :: "platform \<Rightarrow> nat" where
  "unix_socket_limit Darwin = 104"
| "unix_socket_limit Linux = 108"
| "unix_socket_limit OtherOS = 108"

definition max_socket_suffix_bytes :: nat where
  "max_socket_suffix_bytes = length ''hxapprove-'' + 10 + length ''/'' + length ''approval.sock''"

definition longest_socket_path_length :: "string \<Rightarrow> nat" where
  "longest_socket_path_length dir =
     length dir + (if suffix [slash] dir then 0 else 1) + max_socket_suffix_bytes"

text \<open>What the file system tells of a cleaned path: nothing, when a link or the status fails.\<close>

record dir_info =
  di_is_dir :: bool
  di_world_writable :: bool
  di_sticky :: bool
  di_accessible :: bool

datatype dir_error =
    NotAbsoluteDir string | ColonInDir string | Unresolved string | NotDirectory string | WorldWritable string
  | NotAccessible string | TooLong string nat

definition runtime_dir :: "platform \<Rightarrow> (string \<Rightarrow> dir_info option) \<Rightarrow> string \<Rightarrow> (dir_error, string) result" where
  "runtime_dir os fs env =
     (let dir = (if env = [] then ''/tmp'' else env); clean = path_clean dir in
      if \<not> is_abs dir then Inl (NotAbsoluteDir dir)
      else if CHR '':'' \<in> set clean then Inl (ColonInDir clean)
      else (case fs clean of
              None \<Rightarrow> Inl (Unresolved clean)
            | Some i \<Rightarrow>
                if \<not> di_is_dir i then Inl (NotDirectory clean)
                else if di_world_writable i \<and> \<not> di_sticky i then Inl (WorldWritable clean)
                else if \<not> di_accessible i then Inl (NotAccessible clean)
                else if longest_socket_path_length clean + 1 > unix_socket_limit os
                  then Inl (TooLong clean (longest_socket_path_length clean))
                else Inr clean))"

section \<open>Lemmas\<close>

definition covers :: "(string \<rightharpoonup> span_aggregate) \<Rightarrow> event list \<Rightarrow> bool" where
  "covers m es \<longleftrightarrow>
     (\<forall>e\<in>set es. \<exists>a. m (ev_span_id e) = Some a \<and> sa_start a \<le> ev_ts e \<and> ev_ts e \<le> sa_end a) \<and>
     (\<forall>k a. m k = Some a \<longrightarrow> sa_span_id a = k)"

lemma widen_props:
  "sa_start (widen e a) \<le> ev_ts e" "ev_ts e \<le> sa_end (widen e a)" "sa_start (widen e a) \<le> sa_start a"
  "sa_end a \<le> sa_end (widen e a)" "sa_span_id (widen e a) = sa_span_id a"
  by (simp_all add: widen_def Let_def)

lemma aggregate_payload_keeps:
  "aggregate_payload e a = Inr a' \<Longrightarrow> sa_start a' = sa_start a \<and> sa_end a' = sa_end a \<and> sa_span_id a' = sa_span_id a"
  by (auto simp: aggregate_payload_def split: if_split_asm option.split_asm)

lemma aggregate_step_covers:
  assumes "aggregate_step m e = Inr m'" "covers m es"
  shows "covers m' (es @ [e])"
proof -
  let ?a = "case m (ev_span_id e) of None \<Rightarrow> open_aggregate e | Some a \<Rightarrow> a"
  obtain b where b: "aggregate_payload e (widen e ?a) = Inr b" and m': "m' = m(ev_span_id e \<mapsto> b)"
    using assms(1) by (auto simp: aggregate_step_def Let_def rbind_Inr_iff)
  have id: "sa_span_id ?a = ev_span_id e"
    using assms(2) by (auto simp: covers_def open_aggregate_def split: option.split)
  have w: "sa_start b \<le> ev_ts e" "ev_ts e \<le> sa_end b" "sa_start b \<le> sa_start ?a" "sa_end ?a \<le> sa_end b" "sa_span_id b = ev_span_id e"
    using aggregate_payload_keeps [OF b] widen_props [where e = e and a = ?a] id by simp_all
  show ?thesis
    unfolding covers_def
  proof (intro conjI ballI allI impI)
    fix x
    assume "x \<in> set (es @ [e])"
    then consider "x = e" | "x \<in> set es" "ev_span_id x = ev_span_id e" | "x \<in> set es" "ev_span_id x \<noteq> ev_span_id e"
      by auto
    then show "\<exists>a. m' (ev_span_id x) = Some a \<and> sa_start a \<le> ev_ts x \<and> ev_ts x \<le> sa_end a"
    proof cases
      case 1
      with w m' show ?thesis by simp
    next
      case 2
      then obtain a where "m (ev_span_id e) = Some a" "sa_start a \<le> ev_ts x" "ev_ts x \<le> sa_end a"
        using assms(2) unfolding covers_def by metis
      with w(3,4) m' 2(2) show ?thesis by simp
    next
      case 3
      then show ?thesis using assms(2) m' unfolding covers_def by simp
    qed
  next
    fix k a
    assume "m' k = Some a"
    then show "sa_span_id a = k" using assms(2) w(5) m' unfolding covers_def by (simp split: if_split_asm)
  qed
qed

lemma aggregates_cover:
  "rfold aggregate_step Map.empty es = Inr m \<Longrightarrow> covers m es"
proof (induction es arbitrary: m rule: rev_induct)
  case Nil
  then show ?case by (auto simp: covers_def)
next
  case (snoc e es)
  then obtain k where "rfold aggregate_step Map.empty es = Inr k" "aggregate_step k e = Inr m"
    by (auto simp: rfold_append rbind_Inr_iff)
  with snoc.IH aggregate_step_covers show ?case by blast
qed

lemma project_span_Inr:
  "project_span trace_hex span_hex versions st a = Inr sp \<Longrightarrow>
   sd_start sp = sa_start a \<and> sd_end sp = sa_end a \<and> span_hex (sa_span_id a) = Some (snd (sd_context sp))"
  by (auto simp: project_span_def rbind_Inr_iff split: option.split_asm)

section \<open>Properties\<close>

text \<open>
  C39. A successful projection exports one span for each span of the log, and every event of the log
  falls within the time interval of the exported span whose identifier decodes its own.
\<close>

theorem projected_spans_cover_log:
  assumes "project trace_hex span_hex versions es = Inr spans"
  shows "length spans = card (ev_span_id ` set es) \<and>
    (\<forall>e\<in>set es. \<exists>sp\<in>set spans. span_hex (ev_span_id e) = Some (snd (sd_context sp)) \<and>
       sd_start sp \<le> ev_ts e \<and> ev_ts e \<le> sd_end sp)"
proof -
  let ?keys = "sort (uniq (map ev_span_id es))"
  obtain st m where m: "rfold aggregate_step Map.empty es = Inr m"
    and spans: "rmap (\<lambda>k. project_span trace_hex span_hex versions st (the (m k))) ?keys = Inr spans"
    using assms by (auto simp: project_def rbind_Inr_iff)
  have cov: "covers m es" by (rule aggregates_cover [OF m])
  have "length ?keys = card (set ?keys)" by (rule distinct_card [symmetric]) simp
  moreover have "\<exists>sp\<in>set spans. span_hex (ev_span_id e) = Some (snd (sd_context sp)) \<and>
      sd_start sp \<le> ev_ts e \<and> ev_ts e \<le> sd_end sp" if e: "e \<in> set es" for e
  proof -
    obtain a where a: "m (ev_span_id e) = Some a" "sa_start a \<le> ev_ts e" "ev_ts e \<le> sa_end a" "sa_span_id a = ev_span_id e"
      using cov e unfolding covers_def by blast
    have "ev_span_id e \<in> set ?keys" using e by simp
    then obtain sp where "sp \<in> set spans" "project_span trace_hex span_hex versions st (the (m (ev_span_id e))) = Inr sp"
      using spans unfolding rmap_Inr_iff list_all2_conv_all_nth in_set_conv_nth by metis
    with project_span_Inr a show ?thesis by fastforce
  qed
  ultimately show ?thesis using rmap_Inr_length [OF spans] by simp
qed

lemma sample_projected: "\<exists>spans. project Some Some (\<lambda>_. ''1'') sample_log = Inr spans"
proof -
  obtain st where st: "replay sample_log = Inr st" using sample_log_replays by blast
  have "struct_members ''{}'' = Some []"
    using struct_members_fields(1) [of "[]" 0] by (simp add: max_nesting_def print_object_def)
  then have "decode_done ''{}'' = Some \<lparr> dn_result = [], dn_status = [] \<rparr>"
    by (simp add: decode_done_def str_field_def field_raws_known)
  then show ?thesis
    unfolding project_def st
    by (simp add: rmap_error_def sample_log_def Let_def aggregate_step_def open_aggregate_def widen_def
        aggregate_payload_def kind_defs uniq_def project_span_def describe_span_def raw_of_def)
qed

theorem projected_spans_cover_log_witness:
  "\<exists>spans. project Some Some (\<lambda>_. ''1'') sample_log = Inr spans \<and> length spans = 2"
proof -
  obtain spans where s: "project Some Some (\<lambda>_. ''1'') sample_log = Inr spans" using sample_projected by blast
  from projected_spans_cover_log [OF s] have "length spans = card (ev_span_id ` set sample_log)" by blast
  then have "length spans = 2" by (simp add: sample_log_def Let_def)
  with s show ?thesis by blast
qed

text \<open>
  C40. An accepted runtime directory is a clean absolute path without a colon that names an
  accessible directory, not open to everyone without the sticky bit, and every socket path below it
  whose relative part is within the declared bound fits the platform's limit with its final NUL.
\<close>

theorem runtime_sockets_fit:
  assumes "runtime_dir os fs env = Inr dir"
  shows "is_abs dir \<and> CHR '':'' \<notin> set dir \<and>
    (\<exists>i. fs dir = Some i \<and> di_is_dir i \<and> di_accessible i \<and> (di_world_writable i \<longrightarrow> di_sticky i)) \<and>
    (\<forall>name. length name \<le> max_socket_suffix_bytes \<longrightarrow>
       length ((if suffix [slash] dir then dir else dir @ [slash]) @ name) + 1 \<le> unix_socket_limit os)"
proof -
  have d: "dir = path_clean (if env = [] then ''/tmp'' else env)" "is_abs (if env = [] then ''/tmp'' else env)"
    "CHR '':'' \<notin> set dir" "longest_socket_path_length dir + 1 \<le> unix_socket_limit os"
    "\<exists>i. fs dir = Some i \<and> di_is_dir i \<and> di_accessible i \<and> (di_world_writable i \<longrightarrow> di_sticky i)"
    using assms unfolding runtime_dir_def Let_def by (auto split: if_split_asm option.split_asm)
  from d(1,2) have "is_abs dir" by (simp only: is_abs_path_clean)
  with d(3-5) show ?thesis by (auto simp: longest_socket_path_length_def split: if_split_asm)
qed

theorem runtime_sockets_fit_witness:
  "\<exists>dir. runtime_dir Linux (\<lambda>_. Some \<lparr> di_is_dir = True, di_world_writable = True, di_sticky = True,
     di_accessible = True \<rparr>) [] = Inr dir \<and> length (dir @ [slash] @ replicate 34 (CHR ''x'')) + 1 \<le> 108"
proof -
  have tmp: "path_clean ''/tmp'' = ''/tmp''"
    by (simp add: path_clean_def path_elems_def clean_step_def slash_def)
  let ?fs = "\<lambda>_. Some \<lparr> di_is_dir = True, di_world_writable = True, di_sticky = True, di_accessible = True \<rparr>"
  have r: "runtime_dir Linux ?fs [] = Inr ''/tmp''"
    by (simp add: runtime_dir_def Let_def tmp slash_def longest_socket_path_length_def max_socket_suffix_bytes_def)
  have "length (replicate 34 (CHR ''x'')) \<le> max_socket_suffix_bytes" by (simp add: max_socket_suffix_bytes_def)
  with runtime_sockets_fit [OF r] have "length ((if suffix [slash] ''/tmp'' then ''/tmp'' else ''/tmp'' @ [slash])
      @ replicate 34 (CHR ''x'')) + 1 \<le> unix_socket_limit Linux" by blast
  with r show ?thesis by (simp add: slash_def)
qed

end
