(* ===== verification/Spec2Isabelle.thy ===== *)
theory Spec2Isabelle
  imports Policy_Parse Redacting_Writer Fork Process_Wire Session Audit_Report Egress Relay_Server Observe
begin

text \<open>
  JANUS runs coding agents in sandboxes and records what they do in an append-only event log. A
  policy decides what a spawned agent may touch; the turn loop drives a model, its tools and hooks;
  every event passes the redactor and the single log writer into a store; replay, fork, audit, span
  export and the relay's tail are projections of that log; the egress proxy and the approval relay
  stand between an agent and the outside.

  This development models the Go sources under \<open>src/\<close>. Strings and byte slices are lists of
  characters, structs are records, errors are the left values of a sum, loops are recursion or
  folds that stop at the first error. Integers are 64-bit words where sums or differences can wrap
  and are checked, and unbounded otherwise. Code outside the repository is an argument: the Unicode
  lower-case tables \<open>ul\<close>, the YAML decoder, the resolver, the audit sink, the clock, the model, the
  tools and hooks, \<open>strconv.Quote\<close>, and the decoders of exported identifiers.

  \<^bold>\<open>Foundations.\<close>
  \<^item> \<open>Go_Prelude\<close>: results, string and path functions of the standard library; \<open>Go_Bytes\<close>: UTF-8,
    decimal numbers, base64; \<open>Net_Addr\<close>: IP addresses; \<open>Go_State\<close>: stateful computations with
    errors and a logic for the traces they emit.
  \<^item> \<open>Json\<close>, \<open>Json_Roundtrip\<close>: \<open>encoding/json\<close> as used here, and that printed values parse back.
    The fuel of the parser, twice the length of the text and two, always suffices, which
    \<open>Json_Roundtrip\<close> proves; the nesting limit is Go's 10000.

  \<^bold>\<open>Policy.\<close>
  \<^item> \<open>Policy\<close> (\<open>core/policy/policy.go\<close>, \<open>extensions.go\<close>): merge and evaluation. Overlays only
    narrow, workspaces stay inside their scope, grants are characterised exactly; two theorems show
    inputs for which a merge widens. \<open>Policy_Parse\<close> (\<open>parse.go\<close>): parsed profiles are explicit.

  \<^bold>\<open>The log.\<close>
  \<^item> \<open>Events\<close>, \<open>Contracts\<close>, \<open>Payloads\<close> (\<open>contracts\<close>): the event record, its validation and the
    payload structs.
  \<^item> \<open>Redaction\<close>, \<open>Redacting_Writer\<close> (\<open>core/logd/redact.go\<close>, \<open>redacting_writer.go\<close>): redacted
    events hold no registered secret, chunking does not matter, and an oversized flush can leak a
    prefix when occurrences of a secret overlap.
  \<^item> \<open>Event_Store\<close> (\<open>seams/store/sqlite\<close>) provides the contract \<open>event_store\<close>; \<open>Log_Writer\<close>
    (\<open>core/logd/writer.go\<close>) relies on it and is a step relation over callers, queue and loop;
    \<open>Log_Properties\<close> proves that the log only grows, that answers are true, that a failed commit is
    final and that closing drains the queue.
  \<^item> \<open>Replay\<close>, \<open>Fork\<close> (\<open>replay.go\<close>, \<open>fork.go\<close>): accepted logs, exact sums, the projected history,
    and that a fork replays to the history it copied.

  \<^bold>\<open>Running agents.\<close>
  \<^item> \<open>Loop\<close>, \<open>Session\<close> (\<open>core/loop\<close>): the turn loop against the contract \<open>recording_seams\<close>, which
    \<open>Session\<close> discharges for the writer and the store. The loop recurses on the configured number
    of steps, so every turn ends, and what it logs is bracketed.
  \<^item> \<open>Process_Wire\<close> (\<open>core/world/processwire\<close>): the frames of the process channel round-trip, and
    the decoder is strict.
  \<^item> \<open>Egress\<close> (\<open>seams/world/local/egressproxy\<close>, \<open>egresspins.go\<close>): what the proxy may dial, and
    that pins add no domain.
  \<^item> \<open>Relay_Session\<close>, \<open>Relay_Server\<close> (\<open>seams/approvalrelay\<close>): the tail projection is exact;
    approvals come only from a grant in every interleaving; stops take effect once; and an expiry
    can overwrite an acknowledged decision.

  \<^bold>\<open>Reading the log.\<close>
  \<^item> \<open>Intent_Audit\<close>, \<open>Audit_Report\<close> (\<open>core/audit\<close>): every intent and effect is accounted for once,
    matches are sound, warnings and reports do not depend on order.
  \<^item> \<open>Observe\<close> (\<open>core/observe\<close>, \<open>core/runtimedir\<close>): exported spans cover the log, and socket paths
    fit the platform.

  \<^bold>\<open>Not modelled.\<close> Input and output proper: processes, pipes, sockets, containers, overlays, the file
  system (\<open>seams/world/local\<close> beyond its proxy and pins, \<open>seams/subagent\<close>, \<open>seams/accept\<close>,
  \<open>collector\<close>), the forwarding of bytes by the proxy, the DDL and locking of SQLite, and the
  exporter of spans. The parsers of the vendors' streams in \<open>seams/subagent/claudecode\<close> and
  \<open>codex\<close>. SHA-256 and what rests on it (receipts in \<open>core/world\<close>, digests shown to operators).
  The command line in \<open>surfaces/hx\<close> except the merge of overlays, and the tools. When a JSON object
  repeats the key of an array, Go reuses the elements already decoded; \<open>Payloads\<close> takes the last
  array as it is. The partial result that the audit returns beside an incomplete observation is
  dropped, and the Korean text of errors and warnings is replaced by constructors.
\<close>

end
